theory Spec2Isabelle
  imports Complex_Main "HOL-Library.Log_Nat"
begin

section \<open>JavaScript values\<close>

text \<open>
  The sources are TypeScript. A JavaScript \<open>number\<close> is an IEEE double; the model
  idealises a finite double as an exact rational and keeps the three non-finite values
  where the code can produce or receive them (\<open>-Infinity\<close> as the start value of a
  reduction, \<open>NaN\<close> from a text field). The rounding of double arithmetic is modelled
  where a result depends on it: in the quotient of two integers that \<open>getDistribution\<close>
  rounds to four decimals (\<open>double_div\<close> below). Elsewhere sums and quotients are exact,
  and a decimal numeral read back by \<open>Number\<close> is the rational it denotes; signed zero is
  not distinguished.
\<close>

datatype js_error = TypeError

datatype number = NaN | NegInf | Fin rat | PosInf

text \<open>\<open>a > b\<close> on numbers: false as soon as one side is \<open>NaN\<close>.\<close>

fun js_gt :: "number \<Rightarrow> number \<Rightarrow> bool" where
  "js_gt NaN b = False"
| "js_gt a NaN = False"
| "js_gt PosInf PosInf = False"
| "js_gt PosInf b = True"
| "js_gt a PosInf = False"
| "js_gt NegInf b = False"
| "js_gt (Fin a) NegInf = True"
| "js_gt (Fin a) (Fin b) = (b < a)"

text \<open>\<open>x || d\<close>: the falsy numbers are \<open>0\<close> and \<open>NaN\<close>.\<close>

definition js_or :: "number \<Rightarrow> number \<Rightarrow> number" where
  "js_or x d = (if x = NaN \<or> x = Fin 0 then d else x)"

fun Math_floor :: "number \<Rightarrow> number" where
  "Math_floor (Fin q) = Fin (of_int \<lfloor>q\<rfloor>)"
| "Math_floor x = x"

definition Math_max :: "number \<Rightarrow> number \<Rightarrow> number" where
  "Math_max a b = (if a = NaN \<or> b = NaN then NaN else if js_gt a b then a else b)"

definition Math_min :: "number \<Rightarrow> number \<Rightarrow> number" where
  "Math_min a b = (if a = NaN \<or> b = NaN then NaN else if js_gt a b then b else a)"

text \<open>\<open>Math.max(...xs)\<close> of finite values: \<open>-Infinity\<close> when there are none.\<close>

definition Math_max_list :: "rat list \<Rightarrow> number" where
  "Math_max_list xs = foldl (\<lambda>m v. Math_max m (Fin v)) NegInf xs"

text \<open>
  \<open>Number(x.toFixed(4))\<close>: the nearest multiple of \<open>1/10000\<close>, the larger one on a tie,
  computed on the magnitude and with the sign put back.
\<close>

definition toFixed4 :: "rat \<Rightarrow> rat" where
  "toFixed4 x = (if x < 0 then - (of_int \<lfloor>(- x) * 10000 + 1 / 2\<rfloor> / 10000)
                 else of_int \<lfloor>x * 10000 + 1 / 2\<rfloor> / 10000)"

fun number_toFixed4 :: "number \<Rightarrow> number" where
  "number_toFixed4 (Fin q) = Fin (toFixed4 q)"
| "number_toFixed4 x = x"

text \<open>
  The double quotient \<open>a / b\<close> of two integers \<open>a\<close> and \<open>b > 0\<close> below \<open>2^53\<close> (which are
  doubles themselves): the exact quotient rounded to 53 significant bits, to the even
  significand on a tie. \<open>double_exponent a b\<close> is the binary exponent \<open>e\<close> of the quotient,
  \<open>2^e \<le> a / b < 2^(e + 1)\<close>, found from the bit lengths of \<open>a\<close> and \<open>b\<close>; the doubles of
  that binade are the multiples of \<open>2^(e - 52)\<close>. Such quotients are far from the
  subnormal and the overflow range.
\<close>

definition round_half_even :: "rat \<Rightarrow> int" where
  "round_half_even x =
     (let n = \<lfloor>x\<rfloor>; f = x - of_int n
      in if f < 1 / 2 then n else if 1 / 2 < f then n + 1 else if even n then n else n + 1)"

definition double_exponent :: "nat \<Rightarrow> nat \<Rightarrow> int" where
  "double_exponent a b =
     (let d = bitlen (int a) - bitlen (int b)
      in if of_nat b * 2 powi d \<le> (of_nat a :: rat) then d else d - 1)"

definition double_div :: "nat \<Rightarrow> nat \<Rightarrow> rat" where
  "double_div a b =
     (if a = 0 then 0
      else let ulp = 2 powi (double_exponent a b - 52)
           in of_int (round_half_even (of_nat a / of_nat b / ulp)) * ulp)"

text \<open>\<open>xs.slice(start, stop)\<close> with integral arguments; negative ones count from the end.\<close>

definition js_slice :: "'a list \<Rightarrow> int \<Rightarrow> int \<Rightarrow> 'a list" where
  "js_slice xs start stop =
     (let len = int (length xs);
          k = (if start < 0 then max (len + start) 0 else min start len);
          final = (if stop < 0 then max (len + stop) 0 else min stop len)
      in take (nat (final - k)) (drop (nat k) xs))"

text \<open>\<open>String(n)\<close> for a natural number, \<open>s.padStart(4, "0")\<close> and \<open>s.trim()\<close>
  (on the ASCII white space; a \<open>char\<close> is a byte).\<close>

fun string_of_nat :: "nat \<Rightarrow> string" where
  "string_of_nat n =
     (if n < 10 then [char_of (48 + n)]
      else string_of_nat (n div 10) @ [char_of (48 + n mod 10)])"

definition padStart4 :: "string \<Rightarrow> string" where
  "padStart4 s = replicate (4 - length s) CHR ''0'' @ s"

definition js_whitespace :: "char \<Rightarrow> bool" where
  "js_whitespace c = (c = CHR '' '' \<or> ((9::nat) \<le> of_char c \<and> (of_char c :: nat) \<le> 13))"

definition trim :: "string \<Rightarrow> string" where
  "trim s = rev (dropWhile js_whitespace (rev (dropWhile js_whitespace s)))"

section \<open>Data model (\<open>lib/api/types.ts\<close>)\<close>

datatype CategoryKey =
  screenshot_document | people | food_cafe | nature_landscape
  | city_street_travel | pets_animals | products_objects | other

text \<open>
  A \<open>ScoreVector\<close> is a JavaScript object; \<open>Object.entries\<close> lists its properties in
  insertion order, so the model keeps the entries as a list.
\<close>

type_synonym ScoreVector = "(CategoryKey \<times> rat) list"

datatype Engine = clip | ollama

datatype JobStatus = idle | running | completed | canceled | job_error

datatype ExportStatus = pending | success | export_error

record Settings =
  ollamaBaseUrl :: string
  ollamaModel :: string
  ollamaThink :: bool
  ollamaStream :: bool
  analysisResizeEnabled :: bool
  analysisMaxEdge :: number
  analysisJpegQuality :: number
  analysisValueEnabled :: bool
  analysisConcurrency :: number
  analysisEngine :: Engine
  clipModelDir :: "string option"
  clipModelFile :: string
  clipFallbackToOllama :: bool
  clipEpAuto :: bool
  clipEpCoreml :: bool
  clipEpCuda :: bool
  clipEpRocm :: bool
  clipEpDirectml :: bool
  clipEpOpenvino :: bool

record PhotoRow =
  photo_id :: string
  fileName :: string
  path :: string
  category :: CategoryKey
  topScore :: number
  scores :: ScoreVector
  tags :: "string list option"
  exportStatus :: ExportStatus
  errorMessage :: "string option"
  analysisDurationMs :: "rat option"
  model_row :: "string option"
  isValuable :: "bool option"
  valuableScore :: "rat option"

record Progress =
  jobId :: string
  status :: JobStatus
  currentFile :: "string option"
  processed :: int
  total :: int
  errors :: int

datatype DistributionMode = avg_score | count_ratio

record Distribution =
  mode :: DistributionMode
  byCategory :: "(CategoryKey \<times> rat) list"

record StartAnalysisInput =
  sourceRoot :: string
  exportRoot :: string

datatype StartAnalysisResult = StartAnalysisResult (jobId_of: string)

section \<open>The API module (\<open>lib/api/index.ts\<close>), mock mode\<close>

text \<open>
  Outside the Tauri shell (\<open>useMock\<close>) every command of the module runs the branch
  modelled here; in the shell it forwards to the native backend, which is not among
  the sources.
\<close>

definition CATEGORY_KEYS :: "CategoryKey list" where
  "CATEGORY_KEYS = [screenshot_document, people, food_cafe, nature_landscape,
     city_street_travel, pets_animals, products_objects, other]"

definition DEFAULT_SETTINGS :: Settings where
  "DEFAULT_SETTINGS = \<lparr>
     ollamaBaseUrl = ''http://127.0.0.1:11434'',
     ollamaModel = ''qwen2.5vl:7b'',
     ollamaThink = False,
     ollamaStream = False,
     analysisResizeEnabled = True,
     analysisMaxEdge = Fin 768,
     analysisJpegQuality = Fin 60,
     analysisValueEnabled = False,
     analysisConcurrency = Fin 4,
     analysisEngine = clip,
     clipModelDir = None,
     clipModelFile = ''onnx/model_q4f16.onnx'',
     clipFallbackToOllama = False,
     clipEpAuto = True,
     clipEpCoreml = True,
     clipEpCuda = False,
     clipEpRocm = False,
     clipEpDirectml = False,
     clipEpOpenvino = False \<rparr>"

text \<open>
  The module's variables. \<open>published\<close> is not a variable of the source: it records, in
  order, the snapshots that \<open>emitProgress\<close> hands to the progress listeners.
\<close>

record ApiState =
  mockJobId :: "string option"
  mockRows :: "PhotoRow list"
  mockProgress :: Progress
  published :: "Progress list"

definition initial_api :: ApiState where
  "initial_api = \<lparr>
     mockJobId = None,
     mockRows = [],
     mockProgress = \<lparr> jobId = [], status = idle, currentFile = None,
                      processed = 0, total = 0, errors = 0 \<rparr>,
     published = [] \<rparr>"

text \<open>
  \<open>normalizeScores\<close>: \<open>total\<close> is the sum, or 1 when the sum is 0; each value is divided
  by it and rounded to four decimals. Reading \<open>vals[idx]\<close> beyond the end of \<open>raw\<close>
  gives \<open>undefined\<close>, whose \<open>toFixed\<close> call throws.
\<close>

definition normalizeScores :: "rat list \<Rightarrow> js_error + ScoreVector" where
  "normalizeScores raw =
     (let s = foldl (\<lambda>sum n. sum + n) 0 raw;
          total = (if s = 0 then 1 else s);
          vals = map (\<lambda>n. n / total) raw
      in if length vals < length CATEGORY_KEYS then Inl TypeError
         else Inr (map (\<lambda>(key, idx). (key, toFixed4 (vals ! idx)))
                     (zip CATEGORY_KEYS [0 ..< length CATEGORY_KEYS])))"

text \<open>\<open>deriveCategory\<close>: a left-to-right reduction over the entries that replaces the
  running top only by a strictly greater value.\<close>

definition deriveCategory :: "ScoreVector \<Rightarrow> CategoryKey" where
  "deriveCategory sv =
     fst (foldl (\<lambda>top (k, v). if js_gt (Fin v) (snd top) then (k, Fin v) else top)
            (CATEGORY_KEYS ! 0, NegInf) sv)"

text \<open>
  The random sources of one mock job, in the order the code draws them: the job's
  \<open>crypto.randomUUID()\<close>, the \<open>Math.random()\<close> of the row count, and for the row of
  iteration \<open>i\<close> its UUID and its \<open>Math.random()\<close> draws (draws 0 to 7 for the raw
  scores, draw 8 for the export status).
\<close>

record Randomness =
  job_uuid :: string
  count_draw :: rat
  row_uuid :: "nat \<Rightarrow> string"
  row_draw :: "nat \<Rightarrow> nat \<Rightarrow> rat"

definition mockRow :: "Randomness \<Rightarrow> nat \<Rightarrow> js_error + PhotoRow" where
  "mockRow rnd i =
     (let raw = map (\<lambda>k. row_draw rnd i k + 2 / 10) [0 ..< length CATEGORY_KEYS]
      in case normalizeScores raw of
           Inl e \<Rightarrow> Inl e
         | Inr sv \<Rightarrow> Inr \<lparr>
             photo_id = row_uuid rnd i,
             fileName = ''photo_'' @ padStart4 (string_of_nat (i + 1)) @ ''.jpg'',
             path = ''/mock/source/photo_'' @ string_of_nat (i + 1) @ ''.jpg'',
             category = deriveCategory sv,
             topScore = number_toFixed4 (Math_max_list (map snd sv)),
             scores = sv,
             tags = Some [],
             exportStatus =
               (if 9 / 10 < row_draw rnd i (length CATEGORY_KEYS) then export_error
                else success),
             errorMessage = None,
             analysisDurationMs = None,
             model_row = None,
             isValuable = None,
             valuableScore = None \<rparr>)"

fun collect_rows :: "(nat \<Rightarrow> js_error + PhotoRow) \<Rightarrow> nat list \<Rightarrow> js_error + PhotoRow list" where
  "collect_rows f [] = Inr []"
| "collect_rows f (i # is) =
     (case f i of
        Inl e \<Rightarrow> Inl e
      | Inr r \<Rightarrow> (case collect_rows f is of Inl e \<Rightarrow> Inl e | Inr rs \<Rightarrow> Inr (r # rs)))"

definition generateMockRows :: "int \<Rightarrow> Randomness \<Rightarrow> js_error + PhotoRow list" where
  "generateMockRows count rnd = collect_rows (mockRow rnd) [0 ..< nat count]"

definition emitProgress :: "(Progress \<Rightarrow> Progress) \<Rightarrow> ApiState \<Rightarrow> ApiState" where
  "emitProgress update s =
     (let p = update (mockProgress s)
      in s\<lparr> mockProgress := p, published := published s @ [p] \<rparr>)"

text \<open>
  \<open>startAnalysis\<close>: the job id and the fresh progress are stored before the rows are
  generated, so they stay stored if generation throws. The input is not read.
\<close>

definition startAnalysis ::
  "StartAnalysisInput \<Rightarrow> Randomness \<Rightarrow> ApiState \<Rightarrow> (js_error + StartAnalysisResult) \<times> ApiState" where
  "startAnalysis input rnd s =
     (let jid = job_uuid rnd;
          s1 = s\<lparr> mockJobId := Some jid,
                  mockProgress := \<lparr> jobId = jid, status = running, currentFile = None,
                                    processed = 0, total = 0, errors = 0 \<rparr> \<rparr>;
          count = \<lfloor>200 + count_draw rnd * 300\<rfloor>
      in case generateMockRows count rnd of
           Inl e \<Rightarrow> (Inl e, s1)
         | Inr rows \<Rightarrow>
             (Inr (StartAnalysisResult jid),
              emitProgress (\<lambda>p. p\<lparr> total := count, status := running \<rparr>)
                (s1\<lparr> mockRows := rows \<rparr>)))"

text \<open>
  One firing of the interval timer that \<open>startAnalysis\<close> installs; \<open>r\<close> is the
  \<open>Math.random()\<close> of the step. When the job is not running the callback only clears
  its timer. Timers are not part of the state: a firing is an event, and every
  sequence of events is considered.
\<close>

definition tick :: "rat \<Rightarrow> ApiState \<Rightarrow> ApiState" where
  "tick r s =
     (if status (mockProgress s) \<noteq> running then s
      else
        let step = \<lfloor>5 + r * 12\<rfloor>;
            nextProcessed = min (processed (mockProgress s) + step) (total (mockProgress s));
            slice = js_slice (mockRows s) (processed (mockProgress s)) nextProcessed;
            lastFile = (if slice \<noteq> [] then Some (fileName (last slice)) else None);
            errorsInSlice = int (length (filter (\<lambda>r. exportStatus r = export_error) slice));
            s1 = emitProgress (\<lambda>p. p\<lparr> processed := nextProcessed, currentFile := lastFile,
                                       errors := errors (mockProgress s) + errorsInSlice \<rparr>) s
        in if total (mockProgress s1) \<le> nextProcessed
           then emitProgress (\<lambda>p. p\<lparr> status := completed, currentFile := None \<rparr>) s1
           else s1)"

definition cancelAnalysis :: "string \<Rightarrow> ApiState \<Rightarrow> ApiState" where
  "cancelAnalysis jid s =
     (if mockJobId s = Some jid then emitProgress (\<lambda>p. p\<lparr> status := canceled \<rparr>) s else s)"

definition clearResults :: "ApiState \<Rightarrow> ApiState" where
  "clearResults s = s\<lparr> mockRows := [] \<rparr>"

text \<open>
  What can change the module's job state while a job is live: a firing of a timer, a
  call of \<open>cancelAnalysis\<close> and a call of \<open>clearResults\<close>.
\<close>

datatype Event = Tick rat | Cancel string | ClearResults

fun event :: "ApiState \<Rightarrow> Event \<Rightarrow> ApiState" where
  "event s (Tick r) = tick r s"
| "event s (Cancel jid) = cancelAnalysis jid s"
| "event s ClearResults = clearResults s"

definition run :: "Event list \<Rightarrow> ApiState \<Rightarrow> ApiState" where
  "run evs s = foldl event s evs"

text \<open>
  \<open>getDistribution\<close>, mode \<open>count_ratio\<close>, and the early return both modes share, on the
  rows of \<open>mockRows\<close>. While the rows are counted \<open>byCategory\<close> holds integers, kept here
  as natural numbers (an array has fewer than \<open>2^32\<close> elements); each count is then
  replaced by \<open>Number((count / total).toFixed(4))\<close>, where the quotient is the double
  quotient and \<open>toFixed\<close> rounds the exact value of that double.
\<close>

definition increment :: "CategoryKey \<Rightarrow> (CategoryKey \<times> nat) list \<Rightarrow> (CategoryKey \<times> nat) list" where
  "increment c by_cat = map (\<lambda>(k, v). if k = c then (k, v + 1) else (k, v)) by_cat"

definition getDistribution_count_ratio :: "PhotoRow list \<Rightarrow> Distribution" where
  "getDistribution_count_ratio rows =
     (if length rows = 0
      then \<lparr> mode = count_ratio, byCategory = map (\<lambda>c. (c, 0)) CATEGORY_KEYS \<rparr>
      else
        let counted = foldl (\<lambda>by_cat r. increment (category r) by_cat)
                        (map (\<lambda>c. (c, 0)) CATEGORY_KEYS) rows;
            total = (if length rows = 0 then 1 else length rows)
        in \<lparr> mode = count_ratio,
             byCategory = map (\<lambda>(c, v). (c, toFixed4 (double_div v total))) counted \<rparr>)"

section \<open>The analysis store (\<open>features/analysis/store.tsx\<close>)\<close>

text \<open>The argument of \<open>saveSettings\<close>; fields that share a name with \<open>Settings\<close> carry the
  suffix \<open>_next\<close>.\<close>

record SaveSettingsInput =
  baseUrl :: string
  model :: string
  think :: bool
  stream :: bool
  resizeEnabled :: bool
  maxEdge :: number
  jpegQuality :: number
  valueEnabled :: bool
  concurrency :: number
  engine :: Engine
  clipModelDir_next :: string
  clipModelFile_next :: string
  clipFallbackToOllama_next :: bool
  clipEpAuto_next :: bool
  clipEpCoreml_next :: bool
  clipEpCuda_next :: bool
  clipEpRocm_next :: bool
  clipEpDirectml_next :: bool
  clipEpOpenvino_next :: bool

text \<open>\<open>setSettings\<close> of the API module: \<open>settings = { ...settings, ...next }\<close>.\<close>

definition setSettings :: "Settings \<Rightarrow> Settings \<Rightarrow> Settings" where
  "setSettings next settings = settings\<lparr>
     ollamaBaseUrl := ollamaBaseUrl next,
     ollamaModel := ollamaModel next,
     ollamaThink := ollamaThink next,
     ollamaStream := ollamaStream next,
     analysisResizeEnabled := analysisResizeEnabled next,
     analysisMaxEdge := analysisMaxEdge next,
     analysisJpegQuality := analysisJpegQuality next,
     analysisValueEnabled := analysisValueEnabled next,
     analysisConcurrency := analysisConcurrency next,
     analysisEngine := analysisEngine next,
     clipModelDir := clipModelDir next,
     clipModelFile := clipModelFile next,
     clipFallbackToOllama := clipFallbackToOllama next,
     clipEpAuto := clipEpAuto next,
     clipEpCoreml := clipEpCoreml next,
     clipEpCuda := clipEpCuda next,
     clipEpRocm := clipEpRocm next,
     clipEpDirectml := clipEpDirectml next,
     clipEpOpenvino := clipEpOpenvino next \<rparr>"

text \<open>
  \<open>saveSettings\<close>: the settings it hands to \<open>setSettings\<close>, as stored in the API module.
  (On success the store copies the same \<open>stream\<close>, \<open>maxEdge\<close>, \<open>jpegQuality\<close> and
  \<open>concurrency\<close> into its own state.)
\<close>

definition saveSettings :: "SaveSettingsInput \<Rightarrow> Settings \<Rightarrow> Settings" where
  "saveSettings next settings =
     (let maxEdge' = Math_min (Fin 4096) (Math_max (Fin 128) (Math_floor (js_or (maxEdge next) (Fin 0))));
          jpegQuality' = Math_min (Fin 95) (Math_max (Fin 20) (Math_floor (js_or (jpegQuality next) (Fin 0))));
          concurrency' = Math_min (Fin 32) (Math_max (Fin 1) (Math_floor (js_or (concurrency next) (Fin 1))));
          stream' = (if js_gt concurrency' (Fin 1) then False else stream next)
      in setSettings \<lparr>
           ollamaBaseUrl = baseUrl next,
           ollamaModel = model next,
           ollamaThink = think next,
           ollamaStream = stream',
           analysisResizeEnabled = resizeEnabled next,
           analysisMaxEdge = maxEdge',
           analysisJpegQuality = jpegQuality',
           analysisValueEnabled = valueEnabled next,
           analysisConcurrency = concurrency',
           analysisEngine = engine next,
           clipModelDir = (if trim (clipModelDir_next next) \<noteq> []
                           then Some (trim (clipModelDir_next next)) else None),
           clipModelFile = (if trim (clipModelFile_next next) \<noteq> []
                            then trim (clipModelFile_next next) else ''onnx/model_q4f16.onnx''),
           clipFallbackToOllama = clipFallbackToOllama_next next,
           clipEpAuto = clipEpAuto_next next,
           clipEpCoreml = clipEpCoreml_next next,
           clipEpCuda = clipEpCuda_next next,
           clipEpRocm = clipEpRocm_next next,
           clipEpDirectml = clipEpDirectml_next next,
           clipEpOpenvino = clipEpOpenvino_next next \<rparr> settings)"

text \<open>The settings stored after a sequence of \<open>saveSettings\<close> calls, from the defaults.\<close>

definition stored_settings :: "SaveSettingsInput list \<Rightarrow> Settings" where
  "stored_settings nexts = foldl (\<lambda>settings next. saveSettings next settings) DEFAULT_SETTINGS nexts"




section \<open>The value judgment of the Scorer\<close>

text \<open>
  Modelled from the spec: the dot product of two embedding vectors, on which the cosine
  similarity of section 4.4 rests. The Scorer runs in the native backend, whose code is
  not among the sources; the sources only declare the fields \<open>isValuable\<close> and
  \<open>valuableScore\<close> of a \<open>PhotoRow\<close>.
\<close>

definition dot :: "real list \<Rightarrow> real list \<Rightarrow> real" where
  "dot u v = sum_list (map (\<lambda>(a, b). a * b) (zip u v))"

text \<open>
  Modelled from the spec: L2 normalisation of an embedding (section 4.4, step 2).
\<close>

definition l2_normalize :: "real list \<Rightarrow> real list" where
  "l2_normalize v = map (\<lambda>a. a / sqrt (dot v v)) v"

text \<open>
  Modelled from the spec: cosine similarity, the dot product of the two L2-normalised
  vectors (glossary). For a zero vector, which has no direction, the division by zero
  makes the similarity 0 here; no property below depends on it.
\<close>

definition cosine_similarity :: "real list \<Rightarrow> real list \<Rightarrow> real" where
  "cosine_similarity u v = dot (l2_normalize u) (l2_normalize v)"

text \<open>
  Modelled from the spec: softmax with the max-subtraction stabilisation (section 4.4,
  numeric semantics), over the reals.
\<close>

definition softmax :: "real list \<Rightarrow> real list" where
  "softmax xs =
     (let m = foldl max (hd xs) xs;
          es = map (\<lambda>x. exp (x - m)) xs
      in map (\<lambda>e. e / sum_list es) es)"

text \<open>
  Modelled from the spec: the prompt embeddings, one per category prompt plus the keep
  and the drop prompt (section 3, PromptEmbeddingSet).
\<close>

record PromptEmbeddingSet =
  category_prompts :: "real list list"
  keep_prompt :: "real list"
  drop_prompt :: "real list"

text \<open>
  Modelled from the spec: the verdict of the Scorer for one image: the category scores
  and, when value judgment is enabled, the keep probability and the flag.
\<close>

record Verdict =
  category_scores :: "real list"
  keep_prob :: "real option"
  is_valuable :: "bool option"

text \<open>
  Modelled from the spec: steps 3 and 4 of section 4.4 on one image embedding \<open>emb\<close>
  (the result of step 2). Category scores are the softmax of the scaled cosine
  similarities to the category prompts; with value judgment enabled, \<open>keep_prob\<close> is the
  first component of the 2-way softmax of the cosine similarities of the same \<open>emb\<close> to
  the keep and drop prompts, and \<open>isValuable = keep_prob >= 0.5\<close>.
\<close>

definition score_embedding :: "bool \<Rightarrow> real \<Rightarrow> PromptEmbeddingSet \<Rightarrow> real list \<Rightarrow> Verdict" where
  "score_embedding value_enabled logit_scale prompts emb =
     (let cats = softmax (map (\<lambda>c. logit_scale * cosine_similarity emb c) (category_prompts prompts));
          kp = hd (softmax [cosine_similarity emb (keep_prompt prompts),
                            cosine_similarity emb (drop_prompt prompts)])
      in \<lparr> category_scores = cats,
           keep_prob = (if value_enabled then Some kp else None),
           is_valuable = (if value_enabled then Some (1 / 2 \<le> kp) else None) \<rparr>)"

section \<open>Notions used in the properties\<close>

text \<open>The range of \<open>Math.random()\<close>.\<close>

definition unit_draw :: "rat \<Rightarrow> bool" where
  "unit_draw r = (0 \<le> r \<and> r < 1)"

text \<open>An event whose random draw, if it has one, is in range.\<close>

fun event_draw :: "Event \<Rightarrow> bool" where
  "event_draw (Tick r) = unit_draw r"
| "event_draw (Cancel jid) = True"
| "event_draw ClearResults = True"

text \<open>The step of a tick with draw \<open>r\<close>, and the row count of a job.\<close>

definition step_of :: "rat \<Rightarrow> int" where
  "step_of r = \<lfloor>5 + r * 12\<rfloor>"

definition mock_count :: "Randomness \<Rightarrow> int" where
  "mock_count rnd = \<lfloor>200 + count_draw rnd * 300\<rfloor>"

text \<open>The rows that a tick counts as errors.\<close>

definition is_error_row :: "PhotoRow \<Rightarrow> bool" where
  "is_error_row r = (exportStatus r = export_error)"

text \<open>
  The invariant of a mock job: the processed counter is between 0 and the total, the
  total is the number of rows, and the error counter is the number of error rows among
  the rows processed so far.
\<close>

definition job_inv :: "ApiState \<Rightarrow> bool" where
  "job_inv s =
     (0 \<le> processed (mockProgress s)
      \<and> processed (mockProgress s) \<le> total (mockProgress s)
      \<and> total (mockProgress s) = int (length (mockRows s))
      \<and> errors (mockProgress s) =
          int (length (filter is_error_row (take (nat (processed (mockProgress s))) (mockRows s)))))"

text \<open>A job that is only ticked is running and unfinished, or completed and finished.\<close>

definition job_phase :: "ApiState \<Rightarrow> bool" where
  "job_phase s =
     ((status (mockProgress s) = running \<and> processed (mockProgress s) < total (mockProgress s))
      \<or> (status (mockProgress s) = completed \<and> processed (mockProgress s) = total (mockProgress s)))"

text \<open>The bounds on the counters that every event keeps.\<close>

definition counters_ok :: "ApiState \<Rightarrow> bool" where
  "counters_ok s = (0 \<le> processed (mockProgress s)
                    \<and> processed (mockProgress s) \<le> total (mockProgress s))"

text \<open>Example inputs: a job whose rows all fail to export, and a second job.\<close>

abbreviation in0 :: StartAnalysisInput where
  "in0 \<equiv> \<lparr> sourceRoot = ''/photos'', exportRoot = ''/photos/out'' \<rparr>"

abbreviation rnd0 :: Randomness where
  "rnd0 \<equiv> \<lparr> job_uuid = ''job-1'', count_draw = 0, row_uuid = (\<lambda>i. ''row''),
             row_draw = (\<lambda>i k. if k = 8 then 19 / 20 else 1 / 2) \<rparr>"


text \<open>The number of rows of a category.\<close>

definition count_of :: "CategoryKey \<Rightarrow> PhotoRow list \<Rightarrow> nat" where
  "count_of c rows = length (filter (\<lambda>r. category r = c) rows)"



abbreviation next0 :: SaveSettingsInput where
  "next0 \<equiv> \<lparr> baseUrl = ''http://127.0.0.1:11434'', model = ''qwen2.5vl:7b'', think = False,
      stream = True, resizeEnabled = True, maxEdge = Fin 768, jpegQuality = Fin 60,
      valueEnabled = False, concurrency = Fin (77 / 2), engine = ollama,
      clipModelDir_next = [], clipModelFile_next = [], clipFallbackToOllama_next = False,
      clipEpAuto_next = True, clipEpCoreml_next = True, clipEpCuda_next = False,
      clipEpRocm_next = False, clipEpDirectml_next = False, clipEpOpenvino_next = False \<rparr>"

abbreviation next1 :: SaveSettingsInput where
  "next1 \<equiv> \<lparr> baseUrl = ''http://127.0.0.1:11434'', model = ''qwen2.5vl:7b'', think = False,
      stream = True, resizeEnabled = True, maxEdge = Fin 768, jpegQuality = Fin 60,
      valueEnabled = False, concurrency = NaN, engine = ollama,
      clipModelDir_next = [], clipModelFile_next = [], clipFallbackToOllama_next = False,
      clipEpAuto_next = True, clipEpCoreml_next = True, clipEpCuda_next = False,
      clipEpRocm_next = False, clipEpDirectml_next = False, clipEpOpenvino_next = False \<rparr>"

abbreviation example_row :: "CategoryKey \<Rightarrow> PhotoRow" where
  "example_row c \<equiv> \<lparr> photo_id = ''id'', fileName = ''photo_0001.jpg'',
      path = ''/mock/source/photo_1.jpg'', category = c, topScore = Fin 1,
      scores = map (\<lambda>k. (k, if k = c then 1 else 0)) CATEGORY_KEYS, tags = Some [],
      exportStatus = success, errorMessage = None, analysisDurationMs = None,
      model_row = None, isValuable = None, valuableScore = None \<rparr>"

section \<open>Properties of the scores\<close>

subsection \<open>Rounding to four decimals\<close>

lemma foldl_plus_sum_list: "foldl (\<lambda>sum n. sum + n) a xs = a + sum_list (xs :: rat list)"
  by (induction xs arbitrary: a) simp_all

lemma round_half_error:
  fixes y :: rat
  shows "\<bar>of_int \<lfloor>y + 1 / 2\<rfloor> - y\<bar> \<le> 1 / 2"
proof -
  have "of_int \<lfloor>y + 1 / 2\<rfloor> \<le> y + 1 / 2" by (rule of_int_floor_le)
  moreover have "y + 1 / 2 < of_int \<lfloor>y + 1 / 2\<rfloor> + 1" by linarith
  ultimately show ?thesis by linarith
qed

lemma scale_error:
  fixes n y :: rat
  assumes "\<bar>n - y * 10000\<bar> \<le> 1 / 2"
  shows "\<bar>n / 10000 - y\<bar> \<le> 1 / 20000"
  using assms by linarith

lemma toFixed4_error: "\<bar>toFixed4 x - x\<bar> \<le> 1 / 20000"
proof (cases "x < 0")
  case True
  define n :: rat where "n = of_int \<lfloor>(- x) * 10000 + 1 / 2\<rfloor>"
  have "\<bar>n - (- x) * 10000\<bar> \<le> 1 / 2"
    unfolding n_def by (rule round_half_error)
  then have "\<bar>n / 10000 - (- x)\<bar> \<le> 1 / 20000"
    by (rule scale_error)
  moreover have "toFixed4 x = - (n / 10000)"
    using True by (simp add: toFixed4_def n_def)
  ultimately show ?thesis by linarith
next
  case False
  define n :: rat where "n = of_int \<lfloor>x * 10000 + 1 / 2\<rfloor>"
  have "\<bar>n - x * 10000\<bar> \<le> 1 / 2"
    unfolding n_def by (rule round_half_error)
  then have "\<bar>n / 10000 - x\<bar> \<le> 1 / 20000"
    by (rule scale_error)
  moreover have "toFixed4 x = n / 10000"
    using False by (simp add: toFixed4_def n_def)
  ultimately show ?thesis by linarith
qed

lemma toFixed4_unit:
  assumes "0 \<le> x" "x \<le> 1"
  shows "0 \<le> toFixed4 x \<and> toFixed4 x \<le> 1"
proof -
  have "(0::int) \<le> \<lfloor>x * 10000 + 1 / 2\<rfloor>" using assms by simp
  moreover have "\<lfloor>x * 10000 + 1 / 2\<rfloor> \<le> (10000::int)"
  proof -
    have "x * 10000 + 1 / 2 < 10001" using assms by simp
    then have "\<lfloor>x * 10000 + 1 / 2\<rfloor> < (10001::int)" by (simp add: floor_less_iff)
    then show ?thesis by simp
  qed
  ultimately show ?thesis using assms by (simp add: toFixed4_def le_divide_eq divide_le_eq)
qed

lemma sum_list_toFixed4:
  "\<bar>sum_list (map toFixed4 xs) - sum_list xs\<bar> \<le> of_nat (length xs) / 20000"
proof (induction xs)
  case Nil
  show ?case by simp
next
  case (Cons x xs)
  define a b where "a = sum_list (map toFixed4 xs)" and "b = sum_list xs"
  define l :: rat where "l = of_nat (length xs)"
  have "\<bar>toFixed4 x - x\<bar> \<le> 1 / 20000" by (rule toFixed4_error)
  moreover have "\<bar>a - b\<bar> \<le> l / 20000" using Cons by (simp add: a_def b_def l_def)
  ultimately have "\<bar>(toFixed4 x + a) - (x + b)\<bar> \<le> 1 / 20000 + l / 20000" by linarith
  then show ?case by (simp add: a_def b_def l_def add_divide_distrib)
qed

subsection \<open>\<open>normalizeScores\<close>\<close>

lemma map_zip_index:
  assumes "length ks \<le> length vals"
  shows "map (\<lambda>(key, idx). (key, f (vals ! idx))) (zip ks [0 ..< length ks])
         = zip ks (map f (take (length ks) vals))"
  using assms by (intro nth_equalityI) simp_all

lemma normalizeScores_entries:
  assumes "length CATEGORY_KEYS \<le> length raw"
  shows "normalizeScores raw =
    Inr (zip CATEGORY_KEYS
      (map toFixed4 (take (length CATEGORY_KEYS)
         (map (\<lambda>n. n / (if sum_list raw = 0 then 1 else sum_list raw)) raw))))"
  using assms by (simp add: normalizeScores_def Let_def foldl_plus_sum_list map_zip_index)

lemma length_CATEGORY_KEYS: "length CATEGORY_KEYS = 8"
  by (simp add: CATEGORY_KEYS_def)

lemma sum_list_divide: "sum_list (map (\<lambda>n. n / c) xs) = sum_list xs / (c::rat)"
  by (induction xs) (simp_all add: add_divide_distrib)

text \<open>
  Claim C1, as amended. For eight non-negative raw scores with a positive sum,
  \<open>normalizeScores\<close> returns a score vector with the eight keys in enumeration order,
  every value in \<open>[0, 1]\<close>, and the values sum to 1 within \<open>4e-4\<close>: each value is
  rounded to four decimals, so each is off by at most \<open>0.5e-4\<close>.
\<close>

theorem normalizeScores_range_sum:
  assumes len: "length raw = 8"
    and nonneg: "\<forall>n \<in> set raw. 0 \<le> n"
    and pos: "0 < sum_list raw"
  shows "\<exists>sv. normalizeScores raw = Inr sv \<and> map fst sv = CATEGORY_KEYS
           \<and> (\<forall>v \<in> set (map snd sv). 0 \<le> v \<and> v \<le> 1)
           \<and> \<bar>sum_list (map snd sv) - 1\<bar> \<le> 4 / 10000"
proof -
  define vals where "vals = map (\<lambda>n. n / sum_list raw) raw"
  define sv where "sv = zip CATEGORY_KEYS (map toFixed4 vals)"
  have lv: "length vals = 8" by (simp add: vals_def len)
  have eq: "normalizeScores raw = Inr sv"
    using pos len by (simp add: normalizeScores_entries length_CATEGORY_KEYS sv_def vals_def)
  have keys: "map fst sv = CATEGORY_KEYS"
    by (simp add: sv_def length_CATEGORY_KEYS lv)
  have vs: "map snd sv = map toFixed4 vals"
    by (simp add: sv_def length_CATEGORY_KEYS lv)
  have unit: "0 \<le> v \<and> v \<le> 1" if "v \<in> set vals" for v
  proof -
    from that obtain n where n: "n \<in> set raw" and v: "v = n / sum_list raw"
      by (auto simp: vals_def)
    have "n \<le> sum_list raw" using n nonneg by (simp add: member_le_sum_list)
    with n nonneg pos show ?thesis by (simp add: v)
  qed
  have range: "\<forall>v \<in> set (map snd sv). 0 \<le> v \<and> v \<le> 1"
    using unit by (auto simp: vs intro: toFixed4_unit[THEN conjunct1] toFixed4_unit[THEN conjunct2])
  have "sum_list vals = 1" using pos by (simp add: vals_def sum_list_divide)
  moreover have "\<bar>sum_list (map toFixed4 vals) - sum_list vals\<bar> \<le> of_nat (length vals) / 20000"
    by (rule sum_list_toFixed4)
  ultimately have "\<bar>sum_list (map snd sv) - 1\<bar> \<le> 4 / 10000"
    by (simp add: vs lv)
  with eq keys range show ?thesis by blast
qed

text \<open>Eight equal raw scores: every value is \<open>1/8\<close> and the sum is exactly 1.\<close>

theorem normalizeScores_range_sum_witness:
  "normalizeScores [1, 1, 1, 1, 1, 1, 1, 1] =
     Inr [(screenshot_document, 1 / 8), (people, 1 / 8), (food_cafe, 1 / 8),
          (nature_landscape, 1 / 8), (city_street_travel, 1 / 8), (pets_animals, 1 / 8),
          (products_objects, 1 / 8), (other, 1 / 8)]
   \<and> \<bar>sum_list (map snd [(screenshot_document, 1 / 8 :: rat), (people, 1 / 8), (food_cafe, 1 / 8),
          (nature_landscape, 1 / 8), (city_street_travel, 1 / 8), (pets_animals, 1 / 8),
          (products_objects, 1 / 8), (other, 1 / 8)]) - 1\<bar> \<le> 4 / 10000"
proof -
  have "\<exists>sv. normalizeScores [1, 1, 1, 1, 1, 1, 1, 1] = Inr sv \<and> map fst sv = CATEGORY_KEYS
           \<and> (\<forall>v \<in> set (map snd sv). 0 \<le> v \<and> v \<le> 1)
           \<and> \<bar>sum_list (map snd sv) - 1\<bar> \<le> 4 / 10000"
    by (rule normalizeScores_range_sum) simp_all
  moreover have "normalizeScores [1, 1, 1, 1, 1, 1, 1, 1] =
     Inr [(screenshot_document, 1 / 8), (people, 1 / 8), (food_cafe, 1 / 8),
          (nature_landscape, 1 / 8), (city_street_travel, 1 / 8), (pets_animals, 1 / 8),
          (products_objects, 1 / 8), (other, 1 / 8)]"
    by code_simp
  ultimately show ?thesis by auto
qed

text \<open>
  Claim C1 as stated (sum within \<open>1e-4\<close>) fails. The raw scores below lie in
  \<open>[0.2, 1.2)\<close>, the range of \<open>Math.random() + 0.2\<close> in \<open>generateMockRows\<close>, and sum
  to 4. Seven values are \<open>0.12496\<close>, rounded up to \<open>0.1250\<close>, and one is \<open>0.12528\<close>,
  rounded up to \<open>0.1253\<close>: the rounded values sum to \<open>1.0003\<close>.
\<close>

theorem normalizeScores_sum_counterexample:
  "normalizeScores [49984 / 100000, 49984 / 100000, 49984 / 100000, 49984 / 100000,
                    49984 / 100000, 49984 / 100000, 49984 / 100000, 50112 / 100000] =
     Inr [(screenshot_document, 1250 / 10000), (people, 1250 / 10000), (food_cafe, 1250 / 10000),
          (nature_landscape, 1250 / 10000), (city_street_travel, 1250 / 10000),
          (pets_animals, 1250 / 10000), (products_objects, 1250 / 10000), (other, 1253 / 10000)]
   \<and> \<not> \<bar>sum_list (map snd [(screenshot_document, 1250 / 10000 :: rat), (people, 1250 / 10000),
          (food_cafe, 1250 / 10000), (nature_landscape, 1250 / 10000),
          (city_street_travel, 1250 / 10000), (pets_animals, 1250 / 10000),
          (products_objects, 1250 / 10000), (other, 1253 / 10000)]) - 1\<bar> \<le> 1 / 10000"
  by code_simp


subsection \<open>\<open>deriveCategory\<close>\<close>

lemma foldl_top_first_max:
  fixes xs :: "(CategoryKey \<times> rat) list"
  assumes "xs \<noteq> []"
  shows "\<exists>i < length xs.
           foldl (\<lambda>top (k, v). if js_gt (Fin v) (snd top) then (k, Fin v) else top) (k0, NegInf) xs
             = (fst (xs ! i), Fin (snd (xs ! i)))
           \<and> (\<forall>j < length xs. snd (xs ! j) \<le> snd (xs ! i))
           \<and> (\<forall>j < i. snd (xs ! j) < snd (xs ! i))"
  using assms
proof (induction xs rule: rev_induct)
  case Nil
  then show ?case by simp
next
  case (snoc kv ys)
  obtain k v where kv: "kv = (k, v)" by (cases kv)
  show ?case
  proof (cases "ys = []")
    case True
    then show ?thesis by (simp add: kv)
  next
    case False
    with snoc.IH obtain i where i: "i < length ys"
      and top: "foldl (\<lambda>top (k, v). if js_gt (Fin v) (snd top) then (k, Fin v) else top) (k0, NegInf) ys
                  = (fst (ys ! i), Fin (snd (ys ! i)))"
      and ge: "\<forall>j < length ys. snd (ys ! j) \<le> snd (ys ! i)"
      and gt: "\<forall>j < i. snd (ys ! j) < snd (ys ! i)"
      by blast
    show ?thesis
    proof (cases "snd (ys ! i) < v")
      case True
      have "\<forall>j < length ys. snd (ys ! j) < v"
        using ge True by fastforce
      then show ?thesis
        using True top
        by (intro exI[of _ "length ys"]) (auto simp: kv nth_append less_Suc_eq)
    next
      case False
      then show ?thesis
        using i top ge gt
        by (intro exI[of _ i]) (auto simp: kv nth_append less_Suc_eq)
    qed
  qed
qed

text \<open>
  Claim C2. For a score vector whose entries stand in enumeration order (as every
  vector built by \<open>normalizeScores\<close> does, the only one \<open>deriveCategory\<close> is applied to),
  the derived category is the key at an index \<open>i\<close> whose score is maximal and strictly
  greater than every score before it: the arg-max, the earliest in enumeration order
  among equal maxima.
\<close>

theorem deriveCategory_argmax_first:
  assumes "map fst sv = CATEGORY_KEYS"
  shows "\<exists>i < length CATEGORY_KEYS.
           deriveCategory sv = CATEGORY_KEYS ! i
           \<and> (\<forall>j < length CATEGORY_KEYS. snd (sv ! j) \<le> snd (sv ! i))
           \<and> (\<forall>j < i. snd (sv ! j) < snd (sv ! i))"
proof -
  have len: "length sv = length CATEGORY_KEYS"
    using assms by (metis length_map)
  then have "sv \<noteq> []" by (auto simp: length_CATEGORY_KEYS)
  from foldl_top_first_max[OF this, of "CATEGORY_KEYS ! 0"]
  obtain i where i: "i < length sv"
    and top: "deriveCategory sv = fst (sv ! i)"
    and ge: "\<forall>j < length sv. snd (sv ! j) \<le> snd (sv ! i)"
    and gt: "\<forall>j < i. snd (sv ! j) < snd (sv ! i)"
    unfolding deriveCategory_def by auto
  have "fst (sv ! i) = CATEGORY_KEYS ! i"
    using i assms by (metis nth_map)
  with i top ge gt len show ?thesis by auto
qed

text \<open>\<open>people\<close> and \<open>food_cafe\<close> tie at the maximum; the earlier one is reported.\<close>

theorem deriveCategory_argmax_first_witness:
  "map fst [(screenshot_document, 1 / 10 :: rat), (people, 3 / 10), (food_cafe, 3 / 10),
            (nature_landscape, 1 / 10), (city_street_travel, 1 / 10),
            (pets_animals, 1 / 20), (products_objects, 1 / 20), (other, 0)] = CATEGORY_KEYS
   \<and> deriveCategory [(screenshot_document, 1 / 10), (people, 3 / 10), (food_cafe, 3 / 10),
            (nature_landscape, 1 / 10), (city_street_travel, 1 / 10),
            (pets_animals, 1 / 20), (products_objects, 1 / 20), (other, 0)] = people
   \<and> (\<exists>i < length CATEGORY_KEYS.
         deriveCategory [(screenshot_document, 1 / 10), (people, 3 / 10), (food_cafe, 3 / 10),
            (nature_landscape, 1 / 10), (city_street_travel, 1 / 10),
            (pets_animals, 1 / 20), (products_objects, 1 / 20), (other, 0)] = CATEGORY_KEYS ! i
         \<and> (\<forall>j < length CATEGORY_KEYS.
               snd ([(screenshot_document, 1 / 10 :: rat), (people, 3 / 10), (food_cafe, 3 / 10),
                 (nature_landscape, 1 / 10), (city_street_travel, 1 / 10),
                 (pets_animals, 1 / 20), (products_objects, 1 / 20), (other, 0)] ! j)
               \<le> snd ([(screenshot_document, 1 / 10 :: rat), (people, 3 / 10), (food_cafe, 3 / 10),
                 (nature_landscape, 1 / 10), (city_street_travel, 1 / 10),
                 (pets_animals, 1 / 20), (products_objects, 1 / 20), (other, 0)] ! i))
         \<and> (\<forall>j < i.
               snd ([(screenshot_document, 1 / 10 :: rat), (people, 3 / 10), (food_cafe, 3 / 10),
                 (nature_landscape, 1 / 10), (city_street_travel, 1 / 10),
                 (pets_animals, 1 / 20), (products_objects, 1 / 20), (other, 0)] ! j)
               < snd ([(screenshot_document, 1 / 10 :: rat), (people, 3 / 10), (food_cafe, 3 / 10),
                 (nature_landscape, 1 / 10), (city_street_travel, 1 / 10),
                 (pets_animals, 1 / 20), (products_objects, 1 / 20), (other, 0)] ! i)))"
proof (intro conjI)
  show keys: "map fst [(screenshot_document, 1 / 10 :: rat), (people, 3 / 10), (food_cafe, 3 / 10),
            (nature_landscape, 1 / 10), (city_street_travel, 1 / 10),
            (pets_animals, 1 / 20), (products_objects, 1 / 20), (other, 0)] = CATEGORY_KEYS"
    by (simp add: CATEGORY_KEYS_def)
  show "deriveCategory [(screenshot_document, 1 / 10), (people, 3 / 10), (food_cafe, 3 / 10),
            (nature_landscape, 1 / 10), (city_street_travel, 1 / 10),
            (pets_animals, 1 / 20), (products_objects, 1 / 20), (other, 0)] = people"
    by code_simp
  show "\<exists>i < length CATEGORY_KEYS.
         deriveCategory [(screenshot_document, 1 / 10), (people, 3 / 10), (food_cafe, 3 / 10),
            (nature_landscape, 1 / 10), (city_street_travel, 1 / 10),
            (pets_animals, 1 / 20), (products_objects, 1 / 20), (other, 0)] = CATEGORY_KEYS ! i
         \<and> (\<forall>j < length CATEGORY_KEYS.
               snd ([(screenshot_document, 1 / 10 :: rat), (people, 3 / 10), (food_cafe, 3 / 10),
                 (nature_landscape, 1 / 10), (city_street_travel, 1 / 10),
                 (pets_animals, 1 / 20), (products_objects, 1 / 20), (other, 0)] ! j)
               \<le> snd ([(screenshot_document, 1 / 10 :: rat), (people, 3 / 10), (food_cafe, 3 / 10),
                 (nature_landscape, 1 / 10), (city_street_travel, 1 / 10),
                 (pets_animals, 1 / 20), (products_objects, 1 / 20), (other, 0)] ! i))
         \<and> (\<forall>j < i.
               snd ([(screenshot_document, 1 / 10 :: rat), (people, 3 / 10), (food_cafe, 3 / 10),
                 (nature_landscape, 1 / 10), (city_street_travel, 1 / 10),
                 (pets_animals, 1 / 20), (products_objects, 1 / 20), (other, 0)] ! j)
               < snd ([(screenshot_document, 1 / 10 :: rat), (people, 3 / 10), (food_cafe, 3 / 10),
                 (nature_landscape, 1 / 10), (city_street_travel, 1 / 10),
                 (pets_animals, 1 / 20), (products_objects, 1 / 20), (other, 0)] ! i))"
    by (rule deriveCategory_argmax_first [OF keys])
qed

section \<open>Properties of the mock job\<close>

subsection \<open>Starting a job, and one timer firing\<close>

lemma collect_rows_Inr:
  assumes "\<forall>i \<in> set is. \<exists>r. f i = Inr r"
  shows "collect_rows f is = Inr (map (\<lambda>i. projr (f i)) is)"
  using assms by (induction "is") (auto split: sum.splits)

lemma mockRow_Inr:
  "\<exists>r. mockRow rnd i = Inr r"
  by (simp add: mockRow_def Let_def normalizeScores_entries length_CATEGORY_KEYS)

lemma generateMockRows_Inr:
  "generateMockRows count rnd = Inr (map (\<lambda>i. projr (mockRow rnd i)) [0 ..< nat count])"
  unfolding generateMockRows_def by (rule collect_rows_Inr) (simp add: mockRow_Inr)

lemma mockRow_errorMessage:
  "errorMessage (projr (mockRow rnd i)) = None"
  by (simp add: mockRow_def Let_def normalizeScores_entries length_CATEGORY_KEYS)

lemma mockRow_exportStatus:
  "exportStatus (projr (mockRow rnd i)) = (if 9 / 10 < row_draw rnd i 8 then export_error else success)"
  by (simp add: mockRow_def Let_def normalizeScores_entries length_CATEGORY_KEYS)

lemma startAnalysis_eq:
  "startAnalysis input rnd s =
     (Inr (StartAnalysisResult (job_uuid rnd)),
      s\<lparr> mockJobId := Some (job_uuid rnd),
         mockRows := map (\<lambda>i. projr (mockRow rnd i)) [0 ..< nat (mock_count rnd)],
         mockProgress := \<lparr> jobId = job_uuid rnd, status = running, currentFile = None,
                           processed = 0, total = mock_count rnd, errors = 0 \<rparr>,
         published := published s @
            [\<lparr> jobId = job_uuid rnd, status = running, currentFile = None,
               processed = 0, total = mock_count rnd, errors = 0 \<rparr>] \<rparr>)"
  by (simp add: startAnalysis_def Let_def generateMockRows_Inr emitProgress_def mock_count_def)

lemma mock_count_bounds:
  assumes "unit_draw (count_draw rnd)"
  shows "200 \<le> mock_count rnd" and "mock_count rnd < 500"
proof -
  have "(200::rat) \<le> 200 + count_draw rnd * 300" using assms by (simp add: unit_draw_def)
  then show "200 \<le> mock_count rnd" unfolding mock_count_def by (simp only: le_floor_iff)
  have "200 + count_draw rnd * 300 < 500" using assms by (simp add: unit_draw_def)
  then show "mock_count rnd < 500" unfolding mock_count_def by (simp only: floor_less_iff)
qed

lemma step_of_bounds:
  assumes "0 \<le> r"
  shows "5 \<le> step_of r"
proof -
  have "(5::rat) \<le> 5 + r * 12" using assms by simp
  then show ?thesis unfolding step_of_def by (simp only: le_floor_iff)
qed

lemma startAnalysis_inv:
  assumes "unit_draw (count_draw rnd)"
  shows "job_inv (snd (startAnalysis input rnd s))" and "job_phase (snd (startAnalysis input rnd s))"
  using mock_count_bounds[OF assms] by (simp_all add: startAnalysis_eq job_inv_def job_phase_def)

lemma js_slice_take_drop:
  assumes "0 \<le> a" "a \<le> b" "b \<le> int (length xs)"
  shows "js_slice xs a b = take (nat (b - a)) (drop (nat a) xs)"
  using assms by (simp add: js_slice_def Let_def min_def)

lemma filter_take_split:
  assumes "0 \<le> a" "a \<le> b"
  shows "filter P (take (nat b) xs)
         = filter P (take (nat a) xs) @ filter P (take (nat (b - a)) (drop (nat a) xs))"
proof -
  have "nat b = nat a + nat (b - a)" using assms by simp
  then show ?thesis by (simp only: take_add filter_append)
qed

lemma tick_not_running:
  "status (mockProgress s) \<noteq> running \<Longrightarrow> tick r s = s"
  by (simp add: tick_def)

lemma tick_running_progress:
  assumes "status (mockProgress s) = running"
  shows "processed (mockProgress (tick r s))
           = min (processed (mockProgress s) + step_of r) (total (mockProgress s))"
    and "total (mockProgress (tick r s)) = total (mockProgress s)"
    and "jobId (mockProgress (tick r s)) = jobId (mockProgress s)"
    and "mockRows (tick r s) = mockRows s"
    and "mockJobId (tick r s) = mockJobId s"
    and "status (mockProgress (tick r s))
           = (if total (mockProgress s) \<le> processed (mockProgress s) + step_of r
              then completed else running)"
    and "errors (mockProgress (tick r s))
           = errors (mockProgress s)
             + int (length (filter is_error_row
                 (js_slice (mockRows s) (processed (mockProgress s))
                    (min (processed (mockProgress s) + step_of r) (total (mockProgress s))))))"
  using assms by (simp_all add: tick_def Let_def emitProgress_def is_error_row_def[abs_def] step_of_def)

lemma tick_inv:
  assumes inv: "job_inv s" and r: "0 \<le> r"
  shows "job_inv (tick r s)"
proof (cases "status (mockProgress s) = running")
  case False
  then show ?thesis using inv by (simp add: tick_not_running)
next
  case True
  define p where "p = processed (mockProgress s)"
  define n where "n = min (p + step_of r) (total (mockProgress s))"
  have p0: "0 \<le> p" and pt: "p \<le> total (mockProgress s)"
    and tl: "total (mockProgress s) = int (length (mockRows s))"
    and er: "errors (mockProgress s) = int (length (filter is_error_row (take (nat p) (mockRows s))))"
    using inv by (simp_all add: job_inv_def p_def)
  have pn: "p \<le> n" and nt: "n \<le> total (mockProgress s)"
    using step_of_bounds[OF r] pt by (simp_all add: n_def)
  have sl: "js_slice (mockRows s) p n = take (nat (n - p)) (drop (nat p) (mockRows s))"
    using p0 pn nt tl by (intro js_slice_take_drop) simp_all
  have "filter is_error_row (take (nat n) (mockRows s))
        = filter is_error_row (take (nat p) (mockRows s))
          @ filter is_error_row (js_slice (mockRows s) p n)"
    unfolding sl using p0 pn by (rule filter_take_split)
  then have "int (length (filter is_error_row (take (nat n) (mockRows s))))
        = errors (mockProgress s) + int (length (filter is_error_row (js_slice (mockRows s) p n)))"
    by (simp add: er)
  moreover have "processed (mockProgress (tick r s)) = n"
    and "total (mockProgress (tick r s)) = total (mockProgress s)"
    and "mockRows (tick r s) = mockRows s"
    and "errors (mockProgress (tick r s))
           = errors (mockProgress s) + int (length (filter is_error_row (js_slice (mockRows s) p n)))"
    using True by (simp_all add: tick_running_progress n_def p_def)
  ultimately show ?thesis
    using p0 pn nt tl by (simp add: job_inv_def)
qed

lemma tick_phase:
  assumes "job_phase s"
  shows "job_phase (tick r s)"
proof (cases "status (mockProgress s) = running")
  case False
  then show ?thesis using assms by (simp add: tick_not_running)
next
  case True
  then show ?thesis using assms by (auto simp: job_phase_def tick_running_progress)
qed

subsection \<open>The published snapshots\<close>

lemma cancelAnalysis_progress:
  "processed (mockProgress (cancelAnalysis jid s)) = processed (mockProgress s)"
  "total (mockProgress (cancelAnalysis jid s)) = total (mockProgress s)"
  "jobId (mockProgress (cancelAnalysis jid s)) = jobId (mockProgress s)"
  "errors (mockProgress (cancelAnalysis jid s)) = errors (mockProgress s)"
  "mockRows (cancelAnalysis jid s) = mockRows s"
  "mockJobId (cancelAnalysis jid s) = mockJobId s"
  by (simp_all add: cancelAnalysis_def emitProgress_def Let_def)

lemma tick_published:
  "\<exists>new. published (tick r s) = published s @ new
     \<and> (\<forall>p \<in> set new. processed p = processed (mockProgress (tick r s))
                      \<and> total p = total (mockProgress (tick r s))
                      \<and> jobId p = jobId (mockProgress (tick r s)))"
  by (simp add: tick_def Let_def emitProgress_def)

lemma cancelAnalysis_published:
  "\<exists>new. published (cancelAnalysis jid s) = published s @ new
     \<and> (\<forall>p \<in> set new. processed p = processed (mockProgress (cancelAnalysis jid s))
                      \<and> total p = total (mockProgress (cancelAnalysis jid s))
                      \<and> jobId p = jobId (mockProgress (cancelAnalysis jid s)))"
  by (simp add: cancelAnalysis_def emitProgress_def Let_def)

lemma event_published:
  "\<exists>new. published (event s e) = published s @ new
     \<and> (\<forall>p \<in> set new. processed p = processed (mockProgress (event s e))
                      \<and> total p = total (mockProgress (event s e))
                      \<and> jobId p = jobId (mockProgress (event s e)))"
  by (cases e) (simp_all add: tick_published cancelAnalysis_published clearResults_def)

lemma event_counters:
  assumes ok: "counters_ok s" and e: "event_draw e"
  shows "counters_ok (event s e)"
    and "processed (mockProgress s) \<le> processed (mockProgress (event s e))"
    and "total (mockProgress (event s e)) = total (mockProgress s)"
    and "jobId (mockProgress (event s e)) = jobId (mockProgress s)"
proof -
  show "counters_ok (event s e)"
  proof (cases e)
    case (Tick r)
    with e have "5 \<le> step_of r" by (simp add: unit_draw_def step_of_bounds)
    with ok Tick show ?thesis
      by (cases "status (mockProgress s) = running")
         (simp_all add: counters_ok_def tick_not_running tick_running_progress)
  next
    case (Cancel jid)
    with ok show ?thesis by (simp add: counters_ok_def cancelAnalysis_progress)
  next
    case ClearResults
    with ok show ?thesis by (simp add: counters_ok_def clearResults_def)
  qed
  show "processed (mockProgress s) \<le> processed (mockProgress (event s e))"
  proof (cases e)
    case (Tick r)
    with e have "5 \<le> step_of r" by (simp add: unit_draw_def step_of_bounds)
    with ok Tick show ?thesis
      by (cases "status (mockProgress s) = running")
         (simp_all add: counters_ok_def tick_not_running tick_running_progress)
  next
    case (Cancel jid)
    then show ?thesis by (simp add: cancelAnalysis_progress)
  next
    case ClearResults
    then show ?thesis by (simp add: clearResults_def)
  qed
  show "total (mockProgress (event s e)) = total (mockProgress s)"
    by (cases e; cases "status (mockProgress s) = running")
       (simp_all add: tick_not_running tick_running_progress cancelAnalysis_progress
          clearResults_def)
  show "jobId (mockProgress (event s e)) = jobId (mockProgress s)"
    by (cases e; cases "status (mockProgress s) = running")
       (simp_all add: tick_not_running tick_running_progress cancelAnalysis_progress
          clearResults_def)
qed

lemma sorted_wrt_constant:
  assumes "\<forall>p \<in> set xs. f p = (c::int)"
  shows "sorted_wrt (\<lambda>a b. f a \<le> f b) xs"
  using assms by (induction xs) simp_all

lemma run_trace:
  assumes "counters_ok s" and "list_all event_draw evs"
  shows "\<exists>trace. published (run evs s) = published s @ trace
     \<and> sorted_wrt (\<lambda>a b. processed a \<le> processed b) trace
     \<and> (\<forall>p \<in> set trace. processed (mockProgress s) \<le> processed p
                        \<and> processed p \<le> total p
                        \<and> jobId p = jobId (mockProgress s))"
  using assms
proof (induction evs arbitrary: s)
  case Nil
  then show ?case by (simp add: run_def)
next
  case (Cons e evs)
  from Cons.prems have e: "event_draw e" and evs: "list_all event_draw evs" by simp_all
  note step = event_counters[OF Cons.prems(1) e]
  from event_published[of s e] obtain new where
    new: "published (event s e) = published s @ new"
    and newp: "\<forall>p \<in> set new. processed p = processed (mockProgress (event s e))
                      \<and> total p = total (mockProgress (event s e))
                      \<and> jobId p = jobId (mockProgress (event s e))"
    by blast
  from Cons.IH[OF step(1) evs] obtain trace where
    tr: "published (run evs (event s e)) = published (event s e) @ trace"
    and sorted: "sorted_wrt (\<lambda>a b. processed a \<le> processed b) trace"
    and trp: "\<forall>p \<in> set trace. processed (mockProgress (event s e)) \<le> processed p
                        \<and> processed p \<le> total p
                        \<and> jobId p = jobId (mockProgress (event s e))"
    by blast
  have ok': "processed (mockProgress (event s e)) \<le> total (mockProgress (event s e))"
    using step(1) by (simp add: counters_ok_def)
  have "published (run (e # evs) s) = published s @ (new @ trace)"
    by (simp add: run_def tr[unfolded run_def] new)
  moreover have "sorted_wrt (\<lambda>a b. processed a \<le> processed b) (new @ trace)"
    using sorted newp trp sorted_wrt_constant[of new processed "processed (mockProgress (event s e))"]
    by (auto simp: sorted_wrt_append)
  moreover have "\<forall>p \<in> set (new @ trace). processed (mockProgress s) \<le> processed p
                        \<and> processed p \<le> total p
                        \<and> jobId p = jobId (mockProgress s)"
    using newp trp step(2,4) ok' by fastforce
  ultimately show ?case by blast
qed

subsection \<open>A job that runs to completion\<close>

lemma run_ticks:
  assumes "job_inv s" and "job_phase s" and "list_all unit_draw rs"
  shows "job_inv (run (map Tick rs) s) \<and> job_phase (run (map Tick rs) s)
     \<and> mockRows (run (map Tick rs) s) = mockRows s
     \<and> total (mockProgress (run (map Tick rs) s)) = total (mockProgress s)
     \<and> processed (mockProgress (run (map Tick rs) s))
         = min (processed (mockProgress s) + sum_list (map step_of rs)) (total (mockProgress s))"
  using assms
proof (induction rs arbitrary: s)
  case Nil
  then show ?case by (simp add: run_def job_inv_def)
next
  case (Cons r rs)
  from Cons.prems have "unit_draw r" and rs: "list_all unit_draw rs"
    by simp_all
  then have r: "0 \<le> r" by (simp add: unit_draw_def)
  have inv': "job_inv (tick r s)" using Cons.prems(1) r by (rule tick_inv)
  have ph': "job_phase (tick r s)" using Cons.prems(2) by (rule tick_phase)
  note IH = Cons.IH[OF inv' ph' rs]
  have run: "run (map Tick (r # rs)) s = run (map Tick rs) (tick r s)"
    by (simp add: run_def)
  have steps: "0 \<le> sum_list (map step_of rs)"
    using rs by (induction rs) (auto simp: unit_draw_def dest: step_of_bounds)
  have r5: "5 \<le> step_of r" using r by (rule step_of_bounds)
  show ?case
  proof (cases "status (mockProgress s) = running")
    case True
    with IH r5 steps show ?thesis
      unfolding run by (simp add: tick_running_progress)
  next
    case False
    with Cons.prems(2) have "processed (mockProgress s) = total (mockProgress s)"
      by (auto simp: job_phase_def)
    with False IH r5 steps show ?thesis
      unfolding run by (simp add: tick_not_running)
  qed
qed

subsection \<open>The claims on progress, errors and cancellation\<close>

text \<open>
  Claim C4. Take any state \<open>s0\<close>, start a mock job and let any sequence of timer
  firings, cancel requests and result clearings follow (random draws in \<open>[0, 1)\<close>). The snapshots
  published since the start all carry the job's id, their processed counter never
  decreases from an earlier snapshot to a later one, and it stays between 0 and the
  total. No increment is lost: after the firings \<open>rs\<close> alone, the processed counter is
  the sum of all their steps, capped at the total. (The timer callback is the only
  worker of the sources; JavaScript runs each callback to completion, so a run is a
  sequence of events.)
\<close>

theorem progress_monotone_bounded:
  assumes "unit_draw (count_draw rnd)" and "list_all event_draw evs" and "list_all unit_draw rs"
  shows "(\<exists>trace. published (run evs (snd (startAnalysis input rnd s0))) = published s0 @ trace
            \<and> sorted_wrt (\<lambda>a b. processed a \<le> processed b) trace
            \<and> list_all (\<lambda>p. jobId p = job_uuid rnd \<and> 0 \<le> processed p \<and> processed p \<le> total p) trace)
       \<and> processed (mockProgress (run (map Tick rs) (snd (startAnalysis input rnd s0))))
           = min (sum_list (map step_of rs)) (total (mockProgress (snd (startAnalysis input rnd s0))))"
proof
  let ?s1 = "snd (startAnalysis input rnd s0)"
  let ?p0 = "\<lparr> jobId = job_uuid rnd, status = running, currentFile = None,
               processed = 0, total = mock_count rnd, errors = (0::int) \<rparr>"
  have c: "200 \<le> mock_count rnd" using assms(1) by (rule mock_count_bounds)
  have ok: "counters_ok ?s1" using c by (simp add: counters_ok_def startAnalysis_eq)
  from run_trace[OF ok assms(2)] obtain trace where
    tr: "published (run evs ?s1) = published ?s1 @ trace"
    and sorted: "sorted_wrt (\<lambda>a b. processed a \<le> processed b) trace"
    and trp: "\<forall>p \<in> set trace. processed (mockProgress ?s1) \<le> processed p
                \<and> processed p \<le> total p \<and> jobId p = jobId (mockProgress ?s1)"
    by blast
  have "published ?s1 = published s0 @ [?p0]"
    by (simp add: startAnalysis_eq)
  with tr have "published (run evs ?s1) = published s0 @ (?p0 # trace)"
    by simp
  moreover have "sorted_wrt (\<lambda>a b. processed a \<le> processed b) (?p0 # trace)"
    using sorted trp by (simp add: startAnalysis_eq)
  moreover have "list_all (\<lambda>p. jobId p = job_uuid rnd \<and> 0 \<le> processed p \<and> processed p \<le> total p)
                   (?p0 # trace)"
    using trp c by (auto simp: startAnalysis_eq list_all_iff)
  ultimately show "\<exists>trace. published (run evs ?s1) = published s0 @ trace
            \<and> sorted_wrt (\<lambda>a b. processed a \<le> processed b) trace
            \<and> list_all (\<lambda>p. jobId p = job_uuid rnd \<and> 0 \<le> processed p \<and> processed p \<le> total p) trace"
    by blast
  from run_ticks[OF startAnalysis_inv[OF assms(1)] assms(3), of input s0]
  show "processed (mockProgress (run (map Tick rs) ?s1))
           = min (sum_list (map step_of rs)) (total (mockProgress ?s1))"
    by (simp add: startAnalysis_eq)
qed

text \<open>A job of 200 rows: a firing (step 5), a clearing of the results, a firing (step 11),
  a cancel request and one more firing.\<close>

theorem progress_monotone_bounded_witness:
  "sorted_wrt (\<lambda>a b. processed a \<le> processed b)
     (published (run [Tick 0, ClearResults, Tick (1 / 2), Cancel ''job-1'', Tick 0]
        (snd (startAnalysis in0 rnd0 initial_api))))
   \<and> list_all (\<lambda>p. jobId p = ''job-1'' \<and> 0 \<le> processed p \<and> processed p \<le> total p)
     (published (run [Tick 0, ClearResults, Tick (1 / 2), Cancel ''job-1'', Tick 0]
        (snd (startAnalysis in0 rnd0 initial_api))))
   \<and> processed (mockProgress (run (map Tick [0, 1 / 2]) (snd (startAnalysis in0 rnd0 initial_api))))
       = 16"
proof -
  have "unit_draw (count_draw rnd0)"
    and "list_all event_draw [Tick 0, ClearResults, Tick (1 / 2), Cancel ''job-1'', Tick 0]"
    and "list_all unit_draw [0, 1 / 2]"
    by (simp_all add: unit_draw_def)
  from progress_monotone_bounded[OF this, of in0 initial_api]
  show ?thesis
    by (auto simp: initial_api_def step_of_def mock_count_def startAnalysis_eq)
qed

lemma sum_list_step_of_lower:
  assumes "list_all unit_draw rs"
  shows "5 * int (length rs) \<le> sum_list (map step_of rs)"
  using assms
proof (induction rs)
  case Nil
  show ?case by simp
next
  case (Cons r rs)
  then have "5 \<le> step_of r" by (simp add: unit_draw_def step_of_bounds)
  with Cons show ?case by simp
qed

text \<open>
  Claim C5, as amended. A mock job that is left to run (100 timer firings are always
  enough) ends completed, with \<open>processed = total =\<close> the number of rows and \<open>errors =\<close>
  the number of rows with export status \<open>error\<close>: every such row is counted once as an
  error and once as processed. The rows carry no error message.
\<close>

theorem mock_job_completion_counts:
  assumes "unit_draw (count_draw rnd)" and "list_all unit_draw rs" and "100 \<le> length rs"
  shows "status (mockProgress (run (map Tick rs) (snd (startAnalysis input rnd s0)))) = completed
     \<and> processed (mockProgress (run (map Tick rs) (snd (startAnalysis input rnd s0))))
         = int (length (mockRows (run (map Tick rs) (snd (startAnalysis input rnd s0)))))
     \<and> total (mockProgress (run (map Tick rs) (snd (startAnalysis input rnd s0))))
         = int (length (mockRows (run (map Tick rs) (snd (startAnalysis input rnd s0)))))
     \<and> errors (mockProgress (run (map Tick rs) (snd (startAnalysis input rnd s0))))
         = int (length (filter (\<lambda>r. exportStatus r = export_error)
                  (mockRows (run (map Tick rs) (snd (startAnalysis input rnd s0))))))
     \<and> list_all (\<lambda>r. errorMessage r = None)
           (mockRows (run (map Tick rs) (snd (startAnalysis input rnd s0))))"
proof -
  let ?s1 = "snd (startAnalysis input rnd s0)"
  let ?s2 = "run (map Tick rs) ?s1"
  from run_ticks[OF startAnalysis_inv[OF assms(1)] assms(2), of input s0]
  have inv: "job_inv ?s2" and ph: "job_phase ?s2"
    and rows: "mockRows ?s2 = mockRows ?s1"
    and tot: "total (mockProgress ?s2) = total (mockProgress ?s1)"
    and pr: "processed (mockProgress ?s2)
         = min (processed (mockProgress ?s1) + sum_list (map step_of rs)) (total (mockProgress ?s1))"
    by simp_all
  have "mock_count rnd < 500" using assms(1) by (rule mock_count_bounds)
  moreover have "5 * int (length rs) \<le> sum_list (map step_of rs)"
    using assms(2) by (rule sum_list_step_of_lower)
  ultimately have "total (mockProgress ?s1) \<le> processed (mockProgress ?s1) + sum_list (map step_of rs)"
    using assms(3) by (simp add: startAnalysis_eq)
  with pr tot have fin: "processed (mockProgress ?s2) = total (mockProgress ?s2)"
    by simp
  from ph fin have st: "status (mockProgress ?s2) = completed"
    by (auto simp: job_phase_def)
  from inv have tl: "total (mockProgress ?s2) = int (length (mockRows ?s2))"
    and er: "errors (mockProgress ?s2) = int (length (filter is_error_row
               (take (nat (processed (mockProgress ?s2))) (mockRows ?s2))))"
    by (simp_all add: job_inv_def)
  have er': "errors (mockProgress ?s2)
         = int (length (filter (\<lambda>r. exportStatus r = export_error) (mockRows ?s2)))"
    using er fin tl by (simp add: is_error_row_def[abs_def])
  have rows1: "mockRows ?s1 = map (\<lambda>i. projr (mockRow rnd i)) [0 ..< nat (mock_count rnd)]"
    by (simp add: startAnalysis_eq)
  have msg: "list_all (\<lambda>r. errorMessage r = None) (mockRows ?s2)"
    unfolding rows rows1 by (simp add: list_all_iff mockRow_errorMessage)
  from st fin tl er' msg show ?thesis by simp
qed

text \<open>A job of 200 rows that all have export status \<open>error\<close>, run to completion.\<close>

theorem mock_job_completion_counts_witness:
  "status (mockProgress (run (map Tick (replicate 100 0)) (snd (startAnalysis in0 rnd0 initial_api))))
     = completed
   \<and> processed (mockProgress (run (map Tick (replicate 100 0)) (snd (startAnalysis in0 rnd0 initial_api))))
     = 200
   \<and> errors (mockProgress (run (map Tick (replicate 100 0)) (snd (startAnalysis in0 rnd0 initial_api))))
     = 200"
proof -
  let ?s2 = "run (map Tick (replicate 100 0)) (snd (startAnalysis in0 rnd0 initial_api))"
  have "unit_draw (count_draw rnd0)" and "list_all unit_draw (replicate 100 0)"
    and "100 \<le> length (replicate 100 (0::rat))"
    by (simp_all add: unit_draw_def list_all_iff)
  note w = mock_job_completion_counts[OF this, of in0 initial_api]
  have rows: "mockRows ?s2 = mockRows (snd (startAnalysis in0 rnd0 initial_api))"
    using run_ticks[OF startAnalysis_inv[of rnd0 in0 initial_api], of "replicate 100 0"]
    by (simp add: unit_draw_def list_all_iff)
  have rows1: "mockRows (snd (startAnalysis in0 rnd0 initial_api))
                 = map (\<lambda>i. projr (mockRow rnd0 i)) [0 ..< 200]"
    by (simp add: startAnalysis_eq mock_count_def)
  have len: "length (mockRows ?s2) = 200"
    unfolding rows rows1 by simp
  have "filter (\<lambda>r. exportStatus r = export_error) (mockRows ?s2) = mockRows ?s2"
    unfolding rows rows1 by (simp add: mockRow_exportStatus)
  with w len show ?thesis by simp
qed

text \<open>
  Claim C5 as stated fails: a row of a mock job with export status \<open>error\<close> has no error
  message (\<open>generateMockRows\<close> sets \<open>errorMessage: undefined\<close>).
\<close>

theorem mock_error_row_counterexample:
  "exportStatus (mockRows (snd (startAnalysis in0 rnd0 initial_api)) ! 0) = export_error
   \<and> errorMessage (mockRows (snd (startAnalysis in0 rnd0 initial_api)) ! 0) = None"
  by (simp add: startAnalysis_eq mock_count_def mockRow_exportStatus mockRow_errorMessage)

text \<open>
  Claim C6. \<open>cancelAnalysis\<close> with an id other than the live job's leaves the state as it
  is, and a second call with the same id leaves the job state (progress, job id, rows)
  as the first call left it.
\<close>

theorem cancelAnalysis_noop_idempotent:
  "(mockJobId s \<noteq> Some jid \<longrightarrow> cancelAnalysis jid s = s)
   \<and> mockProgress (cancelAnalysis jid (cancelAnalysis jid s)) = mockProgress (cancelAnalysis jid s)
   \<and> mockJobId (cancelAnalysis jid (cancelAnalysis jid s)) = mockJobId (cancelAnalysis jid s)
   \<and> mockRows (cancelAnalysis jid (cancelAnalysis jid s)) = mockRows (cancelAnalysis jid s)"
  by (simp add: cancelAnalysis_def emitProgress_def Let_def)

text \<open>A running job \<open>job-1\<close>: cancelling \<open>job-0\<close> changes nothing; cancelling \<open>job-1\<close>
  twice gives the progress of cancelling it once.\<close>

theorem cancelAnalysis_noop_idempotent_witness:
  "mockJobId (snd (startAnalysis in0 rnd0 initial_api)) = Some ''job-1''
   \<and> cancelAnalysis ''job-0'' (snd (startAnalysis in0 rnd0 initial_api))
       = snd (startAnalysis in0 rnd0 initial_api)
   \<and> status (mockProgress (cancelAnalysis ''job-1'' (snd (startAnalysis in0 rnd0 initial_api))))
       = canceled
   \<and> mockProgress (cancelAnalysis ''job-1''
         (cancelAnalysis ''job-1'' (snd (startAnalysis in0 rnd0 initial_api))))
       = mockProgress (cancelAnalysis ''job-1'' (snd (startAnalysis in0 rnd0 initial_api)))"
proof -
  have id: "mockJobId (snd (startAnalysis in0 rnd0 initial_api)) = Some ''job-1''"
    by (simp add: startAnalysis_eq)
  then have ne: "mockJobId (snd (startAnalysis in0 rnd0 initial_api)) \<noteq> Some ''job-0''"
    by simp
  have st: "status (mockProgress (cancelAnalysis ''job-1'' (snd (startAnalysis in0 rnd0 initial_api))))
       = canceled"
    by (simp add: cancelAnalysis_def emitProgress_def Let_def id)
  from cancelAnalysis_noop_idempotent[of "snd (startAnalysis in0 rnd0 initial_api)" "''job-0''"]
    cancelAnalysis_noop_idempotent[of "snd (startAnalysis in0 rnd0 initial_api)" "''job-1''"]
    id ne st
  show ?thesis by blast
qed

subsection \<open>Starting a job\<close>




section \<open>Properties of the settings\<close>

lemma setSettings_next: "setSettings next settings = next"
  by (simp add: setSettings_def)

lemma saveSettings_concurrency:
  "analysisConcurrency (saveSettings next settings)
     = Math_min (Fin 32) (Math_max (Fin 1) (Math_floor (js_or (concurrency next) (Fin 1))))"
  by (simp add: saveSettings_def Let_def setSettings_next)

lemma saveSettings_stream:
  "ollamaStream (saveSettings next settings)
     = (if js_gt (analysisConcurrency (saveSettings next settings)) (Fin 1) then False
        else stream next)"
  by (simp add: saveSettings_def Let_def setSettings_next)

lemma clamp_finite:
  "Math_min (Fin 32) (Math_max (Fin 1) (Math_floor (js_or (Fin q) (Fin 1))))
     = Fin (of_int (max 1 (min 32 \<lfloor>q\<rfloor>)))"
proof (cases "q = 0")
  case True
  then show ?thesis by (simp add: js_or_def Math_max_def Math_min_def)
next
  case False
  then show ?thesis
    by (auto simp: js_or_def Math_max_def Math_min_def max_def min_def)
qed

lemma clamp_cases:
  "Math_min (Fin 32) (Math_max (Fin 1) (Math_floor (js_or x (Fin 1))))
     = (case x of
          NaN \<Rightarrow> Fin 1
        | NegInf \<Rightarrow> Fin 1
        | Fin q \<Rightarrow> Fin (of_int (max 1 (min 32 \<lfloor>q\<rfloor>)))
        | PosInf \<Rightarrow> Fin 32)"
  by (cases x) (simp_all add: clamp_finite, simp_all add: js_or_def Math_max_def Math_min_def)

text \<open>
  Claim C7. The concurrency that \<open>saveSettings\<close> stores is the floor of the input,
  clamped to \<open>[1, 32]\<close>: an integer between 1 and 32 for every input, 1 for \<open>NaN\<close> and
  for 0.
\<close>

theorem saveSettings_concurrency_clamped:
  "analysisConcurrency (saveSettings next settings)
     = (case concurrency next of
          NaN \<Rightarrow> Fin 1
        | NegInf \<Rightarrow> Fin 1
        | Fin q \<Rightarrow> Fin (of_int (max 1 (min 32 \<lfloor>q\<rfloor>)))
        | PosInf \<Rightarrow> Fin 32)
   \<and> (\<exists>n. analysisConcurrency (saveSettings next settings) = Fin (of_int n) \<and> 1 \<le> n \<and> n \<le> 32)"
proof
  show eq: "analysisConcurrency (saveSettings next settings)
     = (case concurrency next of
          NaN \<Rightarrow> Fin 1
        | NegInf \<Rightarrow> Fin 1
        | Fin q \<Rightarrow> Fin (of_int (max 1 (min 32 \<lfloor>q\<rfloor>)))
        | PosInf \<Rightarrow> Fin 32)"
    by (simp only: saveSettings_concurrency clamp_cases)
  show "\<exists>n. analysisConcurrency (saveSettings next settings) = Fin (of_int n) \<and> 1 \<le> n \<and> n \<le> 32"
  proof (cases "concurrency next")
    case NaN
    with eq show ?thesis by (intro exI[of _ 1]) simp
  next
    case NegInf
    with eq show ?thesis by (intro exI[of _ 1]) simp
  next
    case (Fin q)
    with eq show ?thesis by (intro exI[of _ "max 1 (min 32 \<lfloor>q\<rfloor>)"]) simp
  next
    case PosInf
    with eq show ?thesis by (intro exI[of _ 32]) simp
  qed
qed

lemma stored_settings_snoc:
  "stored_settings (nexts @ [next]) = saveSettings next (stored_settings nexts)"
  by (simp add: stored_settings_def)

text \<open>
  Claim C8. \<open>saveSettings\<close> stores the stream flag as requested only when the stored
  concurrency is not greater than 1, and as false otherwise; after any sequence of
  \<open>saveSettings\<close> calls from the defaults, the stored settings never have a concurrency
  greater than 1 together with streaming enabled.
\<close>

theorem saveSettings_stream_off_when_concurrent:
  "ollamaStream (saveSettings next settings)
     = (stream next \<and> \<not> js_gt (analysisConcurrency (saveSettings next settings)) (Fin 1))
   \<and> \<not> (js_gt (analysisConcurrency (stored_settings nexts)) (Fin 1)
          \<and> ollamaStream (stored_settings nexts))"
proof
  show "ollamaStream (saveSettings next settings)
     = (stream next \<and> \<not> js_gt (analysisConcurrency (saveSettings next settings)) (Fin 1))"
    by (auto simp: saveSettings_stream)
  show "\<not> (js_gt (analysisConcurrency (stored_settings nexts)) (Fin 1)
          \<and> ollamaStream (stored_settings nexts))"
  proof (cases nexts rule: rev_cases)
    case Nil
    then show ?thesis by (simp add: stored_settings_def DEFAULT_SETTINGS_def)
  next
    case (snoc ns n)
    then show ?thesis by (simp add: stored_settings_snoc saveSettings_stream)
  qed
qed

text \<open>The inputs 38.5, \<open>NaN\<close>, 0 and 2.5 are stored as 32, 1, 1 and 2.\<close>

theorem saveSettings_concurrency_clamped_witness:
  "analysisConcurrency (saveSettings next0 DEFAULT_SETTINGS) = Fin 32
   \<and> analysisConcurrency (saveSettings (next0\<lparr> concurrency := NaN \<rparr>) DEFAULT_SETTINGS) = Fin 1
   \<and> analysisConcurrency (saveSettings (next0\<lparr> concurrency := Fin 0 \<rparr>) DEFAULT_SETTINGS) = Fin 1
   \<and> analysisConcurrency (saveSettings (next0\<lparr> concurrency := Fin (5 / 2) \<rparr>) DEFAULT_SETTINGS) = Fin 2"
proof -
  have "\<lfloor>77 / 2 :: rat\<rfloor> = 38" and "\<lfloor>5 / 2 :: rat\<rfloor> = 2"
    by (rule floor_unique; simp)+
  with saveSettings_concurrency_clamped[of next0 DEFAULT_SETTINGS]
    saveSettings_concurrency_clamped[of "next0\<lparr> concurrency := NaN \<rparr>" DEFAULT_SETTINGS]
    saveSettings_concurrency_clamped[of "next0\<lparr> concurrency := Fin 0 \<rparr>" DEFAULT_SETTINGS]
    saveSettings_concurrency_clamped[of "next0\<lparr> concurrency := Fin (5 / 2) \<rparr>" DEFAULT_SETTINGS]
  show ?thesis by simp
qed

text \<open>Streaming requested with concurrency 38.5 is stored as off; with \<open>NaN\<close> (stored as
  1) it is stored as on.\<close>

theorem saveSettings_stream_off_when_concurrent_witness:
  "ollamaStream (saveSettings next0 DEFAULT_SETTINGS) = False
   \<and> ollamaStream (saveSettings next1 DEFAULT_SETTINGS) = True
   \<and> ollamaStream (stored_settings [next1, next0]) = False"
proof -
  have f: "\<lfloor>77 / 2 :: rat\<rfloor> = 38"
    by (rule floor_unique; simp)
  have c: "analysisConcurrency (saveSettings next0 s) = Fin 32" for s
    using f by (simp add: saveSettings_concurrency clamp_cases)
  have c1: "analysisConcurrency (saveSettings next1 s) = Fin 1" for s
    by (simp add: saveSettings_concurrency clamp_cases)
  have s2: "stored_settings [next1, next0] = saveSettings next0 (saveSettings next1 DEFAULT_SETTINGS)"
    by (simp add: stored_settings_def)
  from saveSettings_stream_off_when_concurrent[of next0 DEFAULT_SETTINGS "[next1, next0]"]
  have "ollamaStream (saveSettings next0 DEFAULT_SETTINGS) = False"
    and "ollamaStream (stored_settings [next1, next0]) = False"
    unfolding s2 c by simp_all
  moreover from saveSettings_stream_off_when_concurrent[of next1 DEFAULT_SETTINGS "[]"]
  have "ollamaStream (saveSettings next1 DEFAULT_SETTINGS) = True"
    unfolding c1 by simp
  ultimately show ?thesis by simp
qed

section \<open>Properties of the distribution\<close>

subsection \<open>The double quotient\<close>

lemma round_half_even_error: "\<bar>of_int (round_half_even x) - x\<bar> \<le> 1 / 2"
proof -
  have "of_int \<lfloor>x\<rfloor> \<le> x" and "x < of_int \<lfloor>x\<rfloor> + 1" by linarith+
  then show ?thesis
    unfolding round_half_even_def Let_def by (auto simp: abs_le_iff)
qed

lemma bitlen_mono: "a \<le> b \<Longrightarrow> bitlen a \<le> bitlen b"
  by (simp add: bitlen_def floorlog_mono nat_mono)

lemma double_exponent_le:
  assumes "a \<le> b"
  shows "double_exponent a b \<le> 0"
proof -
  have "bitlen (int a) \<le> bitlen (int b)" using assms by (intro bitlen_mono) simp
  then show ?thesis by (simp add: double_exponent_def Let_def)
qed

text \<open>\<open>double_exponent\<close> is the binary exponent of the quotient.\<close>

lemma double_exponent_bounds:
  assumes "0 < a" "0 < b"
  shows "2 powi double_exponent a b \<le> (of_nat a / of_nat b :: rat)"
    and "(of_nat a / of_nat b :: rat) < 2 powi (double_exponent a b + 1)"
proof -
  define la lb where "la = bitlen (int a)" and "lb = bitlen (int b)"
  have la: "2 ^ nat (la - 1) \<le> int a" "int a < 2 ^ nat la"
    using bitlen_bounds[of "int a"] assms by (simp_all add: la_def)
  have lb: "2 ^ nat (lb - 1) \<le> int b" "int b < 2 ^ nat lb"
    using bitlen_bounds[of "int b"] assms by (simp_all add: lb_def)
  have la1: "1 \<le> la" and lb1: "1 \<le> lb"
    using assms by (simp_all add: la_def lb_def bitlen_alt_def)
  have ra: "(2::rat) powi (la - 1) \<le> of_nat a" "(of_nat a :: rat) < 2 powi la"
  proof -
    have "(of_int (2 ^ nat (la - 1)) :: rat) \<le> of_int (int a)"
      using la(1) by (simp only: of_int_le_iff)
    then show "(2::rat) powi (la - 1) \<le> of_nat a"
      using la1 by (simp add: power_int_def)
    have "(of_int (int a) :: rat) < of_int (2 ^ nat la)"
      using la(2) by (simp only: of_int_less_iff)
    then show "(of_nat a :: rat) < 2 powi la"
      using la1 by (simp add: power_int_def)
  qed
  have rb: "(2::rat) powi (lb - 1) \<le> of_nat b" "(of_nat b :: rat) < 2 powi lb"
  proof -
    have "(of_int (2 ^ nat (lb - 1)) :: rat) \<le> of_int (int b)"
      using lb(1) by (simp only: of_int_le_iff)
    then show "(2::rat) powi (lb - 1) \<le> of_nat b"
      using lb1 by (simp add: power_int_def)
    have "(of_int (int b) :: rat) < of_int (2 ^ nat lb)"
      using lb(2) by (simp only: of_int_less_iff)
    then show "(of_nat b :: rat) < 2 powi lb"
      using lb1 by (simp add: power_int_def)
  qed
  have bpos: "(0::rat) < of_nat b" using assms by simp
  have up: "(of_nat a :: rat) < 2 powi (la - lb + 1) * of_nat b"
  proof -
    have "(2::rat) powi la = 2 powi (la - lb + 1) * 2 powi (lb - 1)"
      by (simp flip: power_int_add)
    also have "\<dots> \<le> 2 powi (la - lb + 1) * of_nat b"
      using rb(1) by (intro mult_left_mono) simp_all
    finally show ?thesis using ra(2) by simp
  qed
  have low: "(2::rat) powi (la - lb - 1) * of_nat b < of_nat a"
  proof -
    have "(2::rat) powi (la - lb - 1) * of_nat b < 2 powi (la - lb - 1) * 2 powi lb"
      using rb(2) by (intro mult_strict_left_mono) simp_all
    also have "\<dots> = 2 powi (la - 1)"
      by (simp flip: power_int_add)
    finally show ?thesis using ra(1) by simp
  qed
  show "2 powi double_exponent a b \<le> (of_nat a / of_nat b :: rat)"
    using low bpos
    by (auto simp: double_exponent_def Let_def la_def[symmetric] lb_def[symmetric]
        le_divide_eq mult.commute)
  show "(of_nat a / of_nat b :: rat) < 2 powi (double_exponent a b + 1)"
    using up bpos
    by (auto simp: double_exponent_def Let_def la_def[symmetric] lb_def[symmetric]
        divide_less_eq mult.commute not_le)
qed

text \<open>The double quotient of a count and a total is within \<open>2^-53\<close> of the exact one.\<close>

lemma double_div_error:
  assumes "a \<le> b" "0 < b"
  shows "\<bar>double_div a b - of_nat a / of_nat b\<bar> \<le> 1 / 2 ^ 53"
proof (cases "a = 0")
  case True
  then show ?thesis by (simp add: double_div_def)
next
  case False
  define ulp :: rat where "ulp = 2 powi (double_exponent a b - 52)"
  define q :: rat where "q = of_nat a / of_nat b"
  have pos: "0 < ulp" by (simp add: ulp_def)
  have "ulp \<le> 2 powi (- 52)"
    unfolding ulp_def using double_exponent_le[OF assms(1)]
    by (intro power_int_increasing) simp_all
  then have small: "ulp \<le> 1 / 2 ^ 52"
    by (simp add: power_int_def field_simps)
  have "\<bar>of_int (round_half_even (q / ulp)) - q / ulp\<bar> \<le> 1 / 2"
    by (rule round_half_even_error)
  then have "\<bar>of_int (round_half_even (q / ulp)) - q / ulp\<bar> * ulp \<le> 1 / 2 * ulp"
    using pos by (intro mult_right_mono) simp_all
  moreover have "\<bar>of_int (round_half_even (q / ulp)) - q / ulp\<bar> * ulp
                 = \<bar>of_int (round_half_even (q / ulp)) * ulp - q\<bar>"
  proof -
    have "(of_int (round_half_even (q / ulp)) - q / ulp) * ulp
          = of_int (round_half_even (q / ulp)) * ulp - q"
      using pos by (simp add: left_diff_distrib)
    then have "\<bar>of_int (round_half_even (q / ulp)) * ulp - q\<bar>
          = \<bar>of_int (round_half_even (q / ulp)) - q / ulp\<bar> * \<bar>ulp\<bar>"
      by (simp only: abs_mult[symmetric])
    then show ?thesis using pos by simp
  qed
  ultimately have "\<bar>of_int (round_half_even (q / ulp)) * ulp - q\<bar> \<le> 1 / 2 * ulp"
    by simp
  also have "\<dots> \<le> 1 / 2 ^ 53" using small by simp
  finally show ?thesis
    using False by (simp add: double_div_def Let_def ulp_def q_def)
qed

subsection \<open>Counting the rows\<close>

lemma increment_map:
  "increment c (map (\<lambda>k. (k, f k)) ks) = map (\<lambda>k. (k, if k = c then f k + 1 else f k)) ks"
  by (simp add: increment_def)

lemma foldl_increment:
  "foldl (\<lambda>by_cat r. increment (category r) by_cat) (map (\<lambda>k. (k, f k)) ks) rows
     = map (\<lambda>k. (k, f k + count_of k rows)) ks"
proof (induction rows arbitrary: f)
  case Nil
  show ?case by (simp add: count_of_def)
next
  case (Cons r rows)
  have "foldl (\<lambda>by_cat r. increment (category r) by_cat) (map (\<lambda>k. (k, f k)) ks) (r # rows)
        = foldl (\<lambda>by_cat r. increment (category r) by_cat)
            (map (\<lambda>k. (k, if k = category r then f k + 1 else f k)) ks) rows"
    by (simp add: increment_map)
  also have "\<dots> = map (\<lambda>k. (k, (if k = category r then f k + 1 else f k) + count_of k rows)) ks"
    by (rule Cons.IH)
  also have "\<dots> = map (\<lambda>k. (k, f k + count_of k (r # rows))) ks"
    by (simp add: count_of_def)
  finally show ?case .
qed

lemma sum_count_of:
  "sum_list (map (\<lambda>k. count_of k rows) CATEGORY_KEYS) = length rows"
proof (induction rows)
  case Nil
  show ?case by (simp add: count_of_def CATEGORY_KEYS_def)
next
  case (Cons r rows)
  have "sum_list (map (\<lambda>k. count_of k (r # rows)) CATEGORY_KEYS)
        = sum_list (map (\<lambda>k. count_of k rows) CATEGORY_KEYS) + 1"
    by (cases "category r") (simp_all add: count_of_def CATEGORY_KEYS_def)
  with Cons show ?case by simp
qed

lemma sum_list_ratio:
  "sum_list (map (\<lambda>c. of_nat (g c) / d) ks) = (of_nat (sum_list (map g ks)) / d :: rat)"
  by (induction ks) (simp_all add: add_divide_distrib)

lemma getDistribution_count_ratio_nonempty:
  assumes "rows \<noteq> []"
  shows "byCategory (getDistribution_count_ratio rows)
         = map (\<lambda>c. (c, toFixed4 (double_div (count_of c rows) (length rows)))) CATEGORY_KEYS"
proof -
  have "foldl (\<lambda>by_cat r. increment (category r) by_cat) (map (\<lambda>c. (c, 0)) CATEGORY_KEYS) rows
        = map (\<lambda>k. (k, 0 + count_of k rows)) CATEGORY_KEYS"
    by (rule foldl_increment)
  with assms show ?thesis
    by (simp add: getDistribution_count_ratio_def Let_def)
qed

subsection \<open>The rounded ratios\<close>

lemma toFixed4_multiple: "\<exists>k. toFixed4 x = of_int k / 10000"
proof (cases "x < 0")
  case True
  then have "toFixed4 x = of_int (- \<lfloor>(- x) * 10000 + 1 / 2\<rfloor>) / 10000"
    by (simp add: toFixed4_def)
  then show ?thesis by blast
next
  case False
  then have "toFixed4 x = of_int \<lfloor>x * 10000 + 1 / 2\<rfloor> / 10000"
    by (simp add: toFixed4_def)
  then show ?thesis by blast
qed

lemma sum_list_toFixed4_multiple: "\<exists>k. sum_list (map (\<lambda>c. toFixed4 (f c)) ks) = of_int k / 10000"
proof (induction ks)
  case Nil
  have "sum_list (map (\<lambda>c. toFixed4 (f c)) []) = of_int 0 / 10000" by simp
  then show ?case by blast
next
  case (Cons c ks)
  from Cons obtain k where k: "sum_list (map (\<lambda>c. toFixed4 (f c)) ks) = of_int k / 10000"
    by blast
  from toFixed4_multiple[of "f c"] obtain j where j: "toFixed4 (f c) = of_int j / 10000"
    by blast
  have "sum_list (map (\<lambda>c. toFixed4 (f c)) (c # ks)) = of_int (j + k) / 10000"
    by (simp add: j k add_divide_distrib)
  then show ?case by blast
qed

lemma sum_list_close:
  fixes f g :: "'a \<Rightarrow> rat"
  assumes "\<forall>c \<in> set ks. \<bar>f c - g c\<bar> \<le> e"
  shows "\<bar>sum_list (map f ks) - sum_list (map g ks)\<bar> \<le> of_nat (length ks) * e"
  using assms
proof (induction ks)
  case Nil
  show ?case by simp
next
  case (Cons c ks)
  define a b where "a = sum_list (map f ks)" and "b = sum_list (map g ks)"
  define l :: rat where "l = of_nat (length ks) * e"
  have "\<bar>f c - g c\<bar> \<le> e" using Cons.prems by simp
  moreover have "\<bar>a - b\<bar> \<le> l" using Cons by (simp add: a_def b_def l_def)
  ultimately have "\<bar>(f c + a) - (g c + b)\<bar> \<le> e + l" by linarith
  then show ?case by (simp add: a_def b_def l_def distrib_right)
qed

lemma count_ratio_value_close:
  assumes "rows \<noteq> []"
  shows "\<bar>toFixed4 (double_div (count_of c rows) (length rows))
          - of_nat (count_of c rows) / of_nat (length rows)\<bar> \<le> 1 / 20000 + 1 / 2 ^ 53"
proof -
  have "count_of c rows \<le> length rows" by (simp add: count_of_def)
  moreover have "0 < length rows" using assms by simp
  ultimately have "\<bar>double_div (count_of c rows) (length rows)
          - of_nat (count_of c rows) / of_nat (length rows)\<bar> \<le> 1 / 2 ^ 53"
    by (rule double_div_error)
  moreover have "\<bar>toFixed4 (double_div (count_of c rows) (length rows))
          - double_div (count_of c rows) (length rows)\<bar> \<le> 1 / 20000"
    by (rule toFixed4_error)
  ultimately show ?thesis by linarith
qed

text \<open>
  Claim C10. Without rows, \<open>getDistribution("count_ratio")\<close> returns zero for every
  category, and the values sum to 0. With at least one row, the value of a category is
  the quotient of the number of rows of that category by the number of rows, as the
  double division gives it, rounded to four decimals; it is within \<open>0.5e-4 + 2^-53\<close> of
  the exact ratio, and the eight values sum to 1 within the rounding (\<open>8 * 0.5e-4\<close>).
\<close>

theorem getDistribution_count_ratio_sums:
  "(rows = [] \<longrightarrow>
      byCategory (getDistribution_count_ratio rows) = map (\<lambda>c. (c, 0)) CATEGORY_KEYS
      \<and> sum_list (map snd (byCategory (getDistribution_count_ratio rows))) = 0)
   \<and> (rows \<noteq> [] \<longrightarrow>
      byCategory (getDistribution_count_ratio rows)
        = map (\<lambda>c. (c, toFixed4 (double_div (length (filter (\<lambda>r. category r = c) rows))
                                    (length rows)))) CATEGORY_KEYS
      \<and> list_all (\<lambda>(c, v). \<bar>v - of_nat (length (filter (\<lambda>r. category r = c) rows))
                                  / of_nat (length rows)\<bar> \<le> 1 / 20000 + 1 / 2 ^ 53)
           (byCategory (getDistribution_count_ratio rows))
      \<and> \<bar>sum_list (map snd (byCategory (getDistribution_count_ratio rows))) - 1\<bar> \<le> 4 / 10000)"
proof (intro conjI impI)
  assume "rows = []"
  then show "byCategory (getDistribution_count_ratio rows) = map (\<lambda>c. (c, 0)) CATEGORY_KEYS"
    by (simp add: getDistribution_count_ratio_def)
  then show "sum_list (map snd (byCategory (getDistribution_count_ratio rows))) = 0"
    by (simp add: comp_def)
next
  assume ne: "rows \<noteq> []"
  define val where "val c = toFixed4 (double_div (count_of c rows) (length rows))" for c
  define ratio :: "CategoryKey \<Rightarrow> rat" where
    "ratio c = of_nat (count_of c rows) / of_nat (length rows)" for c
  have by_cat: "byCategory (getDistribution_count_ratio rows) = map (\<lambda>c. (c, val c)) CATEGORY_KEYS"
    unfolding val_def using ne by (rule getDistribution_count_ratio_nonempty)
  then show "byCategory (getDistribution_count_ratio rows)
        = map (\<lambda>c. (c, toFixed4 (double_div (length (filter (\<lambda>r. category r = c) rows))
                                    (length rows)))) CATEGORY_KEYS"
    by (simp add: val_def count_of_def)
  have close: "\<bar>val c - ratio c\<bar> \<le> 1 / 20000 + 1 / 2 ^ 53" for c
    unfolding val_def ratio_def using ne by (rule count_ratio_value_close)
  then show "list_all (\<lambda>(c, v). \<bar>v - of_nat (length (filter (\<lambda>r. category r = c) rows))
                                  / of_nat (length rows)\<bar> \<le> 1 / 20000 + 1 / 2 ^ 53)
           (byCategory (getDistribution_count_ratio rows))"
    by (simp add: by_cat list_all_iff ratio_def count_of_def)
  have vals: "map snd (byCategory (getDistribution_count_ratio rows)) = map val CATEGORY_KEYS"
    by (simp add: by_cat comp_def)
  have "sum_list (map ratio CATEGORY_KEYS)
        = of_nat (sum_list (map (\<lambda>k. count_of k rows) CATEGORY_KEYS)) / of_nat (length rows)"
    unfolding ratio_def by (rule sum_list_ratio)
  then have one: "sum_list (map ratio CATEGORY_KEYS) = 1"
    using ne by (simp add: sum_count_of)
  have "\<bar>sum_list (map val CATEGORY_KEYS) - sum_list (map ratio CATEGORY_KEYS)\<bar>
        \<le> of_nat (length CATEGORY_KEYS) * (1 / 20000 + 1 / 2 ^ 53)"
    using close by (intro sum_list_close) simp
  then have near: "\<bar>sum_list (map val CATEGORY_KEYS) - 1\<bar> \<le> 8 * (1 / 20000 + 1 / 2 ^ 53)"
    by (simp only: one length_CATEGORY_KEYS of_nat_numeral)
  from sum_list_toFixed4_multiple[of "\<lambda>c. double_div (count_of c rows) (length rows)" CATEGORY_KEYS]
  obtain k where k: "sum_list (map val CATEGORY_KEYS) = of_int k / 10000"
    unfolding val_def by blast
  have "\<bar>(of_int k :: rat) - 10000\<bar> < 5"
  proof -
    define x :: rat where "x = of_int k"
    have "(8::rat) * (1 / 20000 + 1 / 2 ^ 53) < 5 / 10000" by simp
    moreover have "\<bar>x / 10000 - 1\<bar> \<le> 8 * (1 / 20000 + 1 / 2 ^ 53)"
      using near unfolding k x_def .
    ultimately have "\<bar>x / 10000 - 1\<bar> < 5 / 10000" by (rule le_less_trans[rotated])
    then have "\<bar>x - 10000\<bar> < 5" by linarith
    then show ?thesis unfolding x_def .
  qed
  then have "\<bar>(of_int (k - 10000) :: rat)\<bar> < of_int 5" by simp
  then have "\<bar>k - 10000\<bar> < 5"
    by (simp only: of_int_abs[symmetric] of_int_less_iff)
  then have "\<bar>k - 10000\<bar> \<le> 4" by simp
  then have "\<bar>(of_int (k - 10000) :: rat)\<bar> \<le> of_int 4"
    by (simp only: of_int_abs[symmetric] of_int_le_iff)
  then have "\<bar>sum_list (map val CATEGORY_KEYS) - 1\<bar> \<le> 4 / 10000"
    unfolding k by (simp add: abs_le_iff field_simps)
  then show "\<bar>sum_list (map snd (byCategory (getDistribution_count_ratio rows))) - 1\<bar> \<le> 4 / 10000"
    unfolding vals .
qed

text \<open>
  No rows; three rows, two of them \<open>people\<close> and one \<open>other\<close>; and 320 rows, 6 of them
  \<open>people\<close> and 314 \<open>other\<close>. The exact ratio \<open>6 / 320 = 0.01875\<close> lies midway between two
  four-decimal values; the double quotient is just below it, so it is rounded down to
  \<open>0.0187\<close> (and \<open>314 / 320\<close> to \<open>0.9812\<close>).
\<close>

theorem getDistribution_count_ratio_sums_witness:
  "byCategory (getDistribution_count_ratio []) = map (\<lambda>c. (c, 0)) CATEGORY_KEYS
   \<and> sum_list (map snd (byCategory (getDistribution_count_ratio []))) = 0
   \<and> byCategory (getDistribution_count_ratio [example_row people, example_row other, example_row people])
       = [(screenshot_document, 0), (people, 6667 / 10000), (food_cafe, 0), (nature_landscape, 0),
          (city_street_travel, 0), (pets_animals, 0), (products_objects, 0), (other, 3333 / 10000)]
   \<and> \<bar>sum_list (map snd (byCategory (getDistribution_count_ratio
         [example_row people, example_row other, example_row people]))) - 1\<bar> \<le> 4 / 10000
   \<and> byCategory (getDistribution_count_ratio
         (replicate 6 (example_row people) @ replicate 314 (example_row other)))
       = [(screenshot_document, 0), (people, 187 / 10000), (food_cafe, 0), (nature_landscape, 0),
          (city_street_travel, 0), (pets_animals, 0), (products_objects, 0), (other, 9812 / 10000)]"
proof -
  let ?rows = "[example_row people, example_row other, example_row people]"
  let ?many = "replicate 6 (example_row people) @ replicate 314 (example_row other)"
  have ne: "?rows \<noteq> []" by simp
  have ne': "?many \<noteq> []" by simp
  have c: "byCategory (getDistribution_count_ratio ?rows)
       = [(screenshot_document, 0), (people, 6667 / 10000), (food_cafe, 0), (nature_landscape, 0),
          (city_street_travel, 0), (pets_animals, 0), (products_objects, 0), (other, 3333 / 10000)]"
    by code_simp
  have d: "toFixed4 (double_div 6 320) = 187 / 10000" "toFixed4 (double_div 314 320) = 9812 / 10000"
    "toFixed4 (double_div 0 320) = 0"
    by code_simp+
  note e = getDistribution_count_ratio_sums[of "[]", THEN conjunct1, rule_format, OF refl]
  note n = getDistribution_count_ratio_sums[of ?rows, THEN conjunct2, rule_format, OF ne]
  note m = getDistribution_count_ratio_sums[of ?many, THEN conjunct2, rule_format, OF ne',
      THEN conjunct1]
  have m': "byCategory (getDistribution_count_ratio ?many)
       = [(screenshot_document, 0), (people, 187 / 10000), (food_cafe, 0), (nature_landscape, 0),
          (city_street_travel, 0), (pets_animals, 0), (products_objects, 0), (other, 9812 / 10000)]"
    unfolding m by (simp add: CATEGORY_KEYS_def d)
  from e n c m' show ?thesis by blast
qed

section \<open>Properties of the value judgment\<close>

lemma softmax_pair:
  "softmax [a, b] = [exp (a - max a b) / (exp (a - max a b) + exp (b - max a b)),
                    exp (b - max a b) / (exp (a - max a b) + exp (b - max a b))]"
  by (simp add: softmax_def Let_def)

lemma softmax_pair_unit:
  "0 \<le> exp (a - m) / (exp (a - m) + exp (b - m)) \<and> exp (a - m) / (exp (a - m) + exp (b - m)) \<le> (1::real)"
proof -
  have "0 < exp (a - m)" and "0 < exp (b - m)" by simp_all
  then show ?thesis by (simp add: divide_le_eq add_pos_pos)
qed

text \<open>
  Claim C9. With value judgment enabled, the Scorer records a keep probability in
  \<open>[0, 1]\<close>, the first component of the 2-way softmax of the cosine similarities of the
  image embedding to the keep and drop prompts; the flag is true exactly when the
  probability is at least \<open>0.5\<close>; and the category scores are computed from the same
  embedding.
\<close>

theorem keep_prob_unit_and_flag:
  "\<exists>kp. keep_prob (score_embedding True logit_scale prompts emb) = Some kp
        \<and> is_valuable (score_embedding True logit_scale prompts emb) = Some (1 / 2 \<le> kp)
        \<and> 0 \<le> kp \<and> kp \<le> 1
        \<and> kp = hd (softmax [cosine_similarity emb (keep_prompt prompts),
                             cosine_similarity emb (drop_prompt prompts)])
        \<and> category_scores (score_embedding True logit_scale prompts emb)
            = softmax (map (\<lambda>c. logit_scale * cosine_similarity emb c) (category_prompts prompts))"
  using softmax_pair_unit[of "cosine_similarity emb (keep_prompt prompts)"
      "max (cosine_similarity emb (keep_prompt prompts)) (cosine_similarity emb (drop_prompt prompts))"
      "cosine_similarity emb (drop_prompt prompts)"]
  by (simp add: score_embedding_def Let_def softmax_pair)

text \<open>Equal keep and drop prompts: the keep probability is \<open>1/2\<close> and the image is kept.\<close>

theorem keep_prob_unit_and_flag_witness:
  "keep_prob (score_embedding True 100
      \<lparr> category_prompts = [], keep_prompt = [1, 0], drop_prompt = [1, 0] \<rparr> [1, 0]) = Some (1 / 2)
   \<and> is_valuable (score_embedding True 100
      \<lparr> category_prompts = [], keep_prompt = [1, 0], drop_prompt = [1, 0] \<rparr> [1, 0]) = Some True"
proof -
  have "hd (softmax [cosine_similarity [1, 0] [1, 0], cosine_similarity [1, 0] [1, 0]]) = 1 / 2"
    by (simp add: softmax_pair)
  with keep_prob_unit_and_flag[of 100
      "\<lparr> category_prompts = [], keep_prompt = [1, 0], drop_prompt = [1, 0] \<rparr>" "[1, 0]"]
  show ?thesis by auto
qed

end
